theory Spec2Isabelle
  imports Main "HOL-Library.Word" "HOL-Library.Signed_Division"
begin

section \<open>Machine types and constants\<close>

text \<open>
  \<^verbatim>\<open>block_sector_t\<close> is a 32-bit unsigned sector number, a byte is a \<^verbatim>\<open>uint8_t\<close>.
  \<^verbatim>\<open>off_t\<close> and \<^verbatim>\<open>int\<close> are 32-bit signed; they are modelled as \<open>int\<close>, with C's
  truncating division and remainder (\<open>sdiv\<close>, \<open>smod\<close>). Where a sum or difference of
  the source can leave the 32 bits, the model takes the value the machine keeps, the
  result wrapped around into the range of \<^verbatim>\<open>int\<close> (\<open>int32\<close>).
\<close>

type_synonym block_sector_t = "32 word"
type_synonym byte = "8 word"
type_synonym off_t = int

definition int32 :: "int \<Rightarrow> int" where
  "int32 x = signed_take_bit 31 x"

text \<open>
  \<^verbatim>\<open>BLOCK_SECTOR_SIZE\<close> comes from devices/block.h. The on-disk inode below has
  123 + 5 four-byte fields and \<^verbatim>\<open>inode_create\<close> asserts that its size is
  \<^verbatim>\<open>BLOCK_SECTOR_SIZE\<close>, which fixes the value to 512.
\<close>

definition BLOCK_SECTOR_SIZE :: int where
  "BLOCK_SECTOR_SIZE = 512"

definition DIRECT_BLOCK_ENTRIES :: int where
  "DIRECT_BLOCK_ENTRIES = 123"

text \<open>\<^verbatim>\<open>BLOCK_SECTOR_SIZE / sizeof (block_sector_t)\<close>\<close>

definition INDIRECT_BLOCK_ENTRIES :: int where
  "INDIRECT_BLOCK_ENTRIES = BLOCK_SECTOR_SIZE div 4"

section \<open>Inode layer: byte offset to position in the sector map\<close>

datatype direct_t = NORMAL_DIRECT | INDIRECT | DOUBLE_INDIRECT | OUT_LIMIT

record sector_location =
  directness :: direct_t
  index1 :: int
  index2 :: int

text \<open>
  \<^verbatim>\<open>locate_byte (pos, sec_loc)\<close> writes through the pointer \<^verbatim>\<open>sec_loc\<close>: the fields a
  branch does not assign keep what the caller's structure held, so the model takes
  the structure and returns it updated. In the double-indirect branch the source
  subtracts and divides in \<^verbatim>\<open>size_t\<close>; the branch is entered with
  \<open>251 \<le> pos_sector\<close> only, where the unsigned and the signed results agree.
\<close>

definition locate_byte :: "off_t \<Rightarrow> sector_location \<Rightarrow> sector_location" where
  "locate_byte pos sec_loc =
    (let pos_sector = pos sdiv BLOCK_SECTOR_SIZE in
     if pos_sector < DIRECT_BLOCK_ENTRIES then
       sec_loc\<lparr>directness := NORMAL_DIRECT, index1 := pos_sector\<rparr>
     else if pos_sector < DIRECT_BLOCK_ENTRIES + INDIRECT_BLOCK_ENTRIES then
       sec_loc\<lparr>directness := INDIRECT, index1 := pos_sector - DIRECT_BLOCK_ENTRIES\<rparr>
     else if pos_sector <
         DIRECT_BLOCK_ENTRIES + INDIRECT_BLOCK_ENTRIES * (INDIRECT_BLOCK_ENTRIES + 1) then
       (let pos_sector' = pos_sector - DIRECT_BLOCK_ENTRIES - INDIRECT_BLOCK_ENTRIES in
        sec_loc\<lparr>directness := DOUBLE_INDIRECT,
                index1 := pos_sector' sdiv INDIRECT_BLOCK_ENTRIES,
                index2 := pos_sector' smod INDIRECT_BLOCK_ENTRIES\<rparr>)
     else sec_loc\<lparr>directness := OUT_LIMIT\<rparr>)"

section \<open>Errors, memory and the block device\<close>

text \<open>
  Every way in which the C code stops without returning is a value: \<open>Panic\<close> for
  \<^verbatim>\<open>PANIC\<close> and a failed \<^verbatim>\<open>ASSERT\<close>, \<open>OutOfBounds\<close> for an access outside the
  object a pointer refers to (undefined behaviour in C), \<open>BadPointer\<close> for the use of
  a null pointer or of a structure that has been freed, \<open>Deadlock\<close> for the
  acquisition of a mutex the one thread of the model already holds.
\<close>

datatype error = Panic | OutOfBounds | Deadlock | BadPointer

text \<open>
  \<^verbatim>\<open>memcpy (dst + dst_ofs, src + src_ofs, n)\<close> on two byte buffers. The count is a
  \<^verbatim>\<open>size_t\<close>: a negative \<^verbatim>\<open>int\<close> passed for it, or a range that leaves a buffer, is
  an out-of-bounds access.
\<close>

definition memcpy :: "byte list \<Rightarrow> int \<Rightarrow> byte list \<Rightarrow> int \<Rightarrow> int \<Rightarrow> error + byte list" where
  "memcpy dst dst_ofs src src_ofs n =
    (if 0 \<le> dst_ofs \<and> 0 \<le> src_ofs \<and> 0 \<le> n \<and>
        dst_ofs + n \<le> int (length dst) \<and> src_ofs + n \<le> int (length src)
     then Inr (take (nat dst_ofs) dst @ take (nat n) (drop (nat src_ofs) src) @
               drop (nat (dst_ofs + n)) dst)
     else Inl OutOfBounds)"

text \<open>
  Modelled from the spec: the block device (devices/block.c is not among the
  sources). Its contract is \<^verbatim>\<open>read_sector (n, dst[SECTOR_SIZE])\<close> and
  \<^verbatim>\<open>write_sector (n, src[SECTOR_SIZE])\<close>, all I/O exactly one sector. The device is
  the list of its sectors; a sector number at or beyond the sector count has no
  sector to transfer and stops the kernel.
\<close>

definition block_read :: "byte list list \<Rightarrow> block_sector_t \<Rightarrow> error + byte list" where
  "block_read dev sec = (if unat sec < length dev then Inr (dev ! unat sec) else Inl Panic)"

definition block_write ::
  "byte list list \<Rightarrow> block_sector_t \<Rightarrow> byte list \<Rightarrow> error + byte list list" where
  "block_write dev sec buf =
    (if unat sec < length dev then
       if nat BLOCK_SECTOR_SIZE \<le> length buf
       then Inr (dev[unat sec := take (nat BLOCK_SECTOR_SIZE) buf])
       else Inl OutOfBounds
     else Inl Panic)"

section \<open>Buffer cache\<close>

text \<open>
  One \<^verbatim>\<open>struct buffer_head\<close> per cache slot. \<^verbatim>\<open>data\<close> points to the slot's
  \<^verbatim>\<open>BLOCK_SECTOR_SIZE\<close> bytes of the cache arena; the model keeps the bytes in the
  head. The per-slot mutex guards against other threads; the model is of one
  thread, where each acquire in this file is followed by its release, so the
  mutex is left out.
\<close>

record buffer_head =
  dirty :: bool
  valid :: bool
  sector :: block_sector_t
  clock_bit :: bool
  data :: "byte list"

text \<open>
  The globals of the buffer cache and the device below it. The array
  \<^verbatim>\<open>buffer_head[BUFFER_CACHE_ENTRY_NB]\<close> is a list, and the macro (buffer_cache.h is
  not among the sources) is the declared length of the array.
\<close>

record bc_state =
  buffer_head :: "buffer_head list"
  clock_hand :: nat
  fs_device :: "byte list list"

definition BUFFER_CACHE_ENTRY_NB :: "'a bc_state_scheme \<Rightarrow> nat" where
  "BUFFER_CACHE_ENTRY_NB s = length (buffer_head s)"

text \<open>\<^verbatim>\<open>bc_lookup\<close>: the first slot whose \<^verbatim>\<open>sector\<close> field is the sector, or \<^verbatim>\<open>NULL\<close>.
  A pointer to a head is its index.\<close>

fun bc_lookup_from :: "nat \<Rightarrow> buffer_head list \<Rightarrow> block_sector_t \<Rightarrow> nat option" where
  "bc_lookup_from idx [] sec = None"
| "bc_lookup_from idx (h # hs) sec =
    (if sector h = sec then Some idx else bc_lookup_from (Suc idx) hs sec)"

definition bc_lookup :: "'a bc_state_scheme \<Rightarrow> block_sector_t \<Rightarrow> nat option" where
  "bc_lookup s sec = bc_lookup_from 0 (buffer_head s) sec"

text \<open>\<^verbatim>\<open>bc_flush_entry\<close>: writes the slot back and clears \<^verbatim>\<open>dirty\<close>.\<close>

definition bc_flush_entry :: "'a bc_state_scheme \<Rightarrow> nat \<Rightarrow> error + 'a bc_state_scheme" where
  "bc_flush_entry s idx =
    (if idx < length (buffer_head s) then
       (let h = buffer_head s ! idx in
        case block_write (fs_device s) (sector h) (data h) of
          Inl e \<Rightarrow> Inl e
        | Inr dev \<Rightarrow>
            Inr (s\<lparr>fs_device := dev, buffer_head := (buffer_head s)[idx := h\<lparr>dirty := False\<rparr>]\<rparr>))
     else Inl OutOfBounds)"

text \<open>
  The \<^verbatim>\<open>while (1)\<close> loop of \<^verbatim>\<open>bc_select_victim\<close>: the hand passes over slots whose clock
  bit is set, clearing it, and stops at the first slot whose bit is clear, setting it.
  The result is the slot, the heads and the hand.
\<close>

function clock_sweep ::
  "buffer_head list \<Rightarrow> nat \<Rightarrow> error + (nat \<times> buffer_head list \<times> nat)" where
  "clock_sweep heads hand =
    (let idx = (if hand = length heads then 0 else hand);
         hand' = (if Suc hand = length heads then 0 else Suc hand)
     in if idx < length heads then
          if clock_bit (heads ! idx)
          then clock_sweep (heads[idx := (heads ! idx)\<lparr>clock_bit := False\<rparr>]) hand'
          else Inr (idx, heads[idx := (heads ! idx)\<lparr>clock_bit := True\<rparr>], hand')
        else Inl OutOfBounds)"
  by pat_completeness auto

lemma clear_clock_bit_fewer:
  "idx < length heads \<Longrightarrow> clock_bit (heads ! idx) \<Longrightarrow> \<not> clock_bit h \<Longrightarrow>
   length (filter clock_bit (heads[idx := h])) < length (filter clock_bit heads)"
proof (induction heads arbitrary: idx)
  case Nil
  then show ?case by simp
next
  case (Cons a heads)
  then show ?case by (cases idx) auto
qed

termination clock_sweep
  by (relation "measure (\<lambda>(heads, hand). length (filter clock_bit heads))")
    (auto intro!: clear_clock_bit_fewer)

declare clock_sweep.simps [simp del]

text \<open>
  \<^verbatim>\<open>bc_select_victim\<close>. The C function always returns a head; its callers test the
  result against \<^verbatim>\<open>NULL\<close>, so the model returns an optional index.
\<close>

definition bc_select_victim :: "'a bc_state_scheme \<Rightarrow> error + (nat option \<times> 'a bc_state_scheme)" where
  "bc_select_victim s =
    (case clock_sweep (buffer_head s) (clock_hand s) of
       Inl e \<Rightarrow> Inl e
     | Inr (idx, heads, hand) \<Rightarrow>
         (let s1 = s\<lparr>buffer_head := heads, clock_hand := hand\<rparr> in
          case (if dirty (buffer_head s1 ! idx) then bc_flush_entry s1 idx else Inr s1) of
            Inl e \<Rightarrow> Inl e
          | Inr s2 \<Rightarrow>
              Inr (Some idx,
                   s2\<lparr>buffer_head := (buffer_head s2)
                        [idx := (buffer_head s2 ! idx)\<lparr>dirty := False, valid := False, sector := -1\<rparr>]\<rparr>)))"

text \<open>
  \<^verbatim>\<open>bc_read (sector_idx, buffer, buffer_ofs, chunk_size, sector_ofs)\<close> returns the
  success flag, the caller's buffer after the copy and the new state.
\<close>

definition bc_read ::
  "'a bc_state_scheme \<Rightarrow> block_sector_t \<Rightarrow> byte list \<Rightarrow> off_t \<Rightarrow> int \<Rightarrow> int \<Rightarrow>
   error + (bool \<times> byte list \<times> 'a bc_state_scheme)" where
  "bc_read s sector_idx buffer buffer_ofs chunk_size sector_ofs =
    (case (case bc_lookup s sector_idx of
             Some i \<Rightarrow> Inr (Some i, s)
           | None \<Rightarrow>
               (case bc_select_victim s of
                  Inl e \<Rightarrow> Inl e
                | Inr (None, s1) \<Rightarrow> Inr (None, s1)
                | Inr (Some i, s1) \<Rightarrow>
                    (case block_read (fs_device s1) sector_idx of
                       Inl e \<Rightarrow> Inl e
                     | Inr bytes \<Rightarrow>
                         Inr (Some i,
                              s1\<lparr>buffer_head := (buffer_head s1)
                                   [i := (buffer_head s1 ! i)
                                      \<lparr>data := bytes, dirty := False, valid := True,
                                       sector := sector_idx\<rparr>]\<rparr>)))) of
       Inl e \<Rightarrow> Inl e
     | Inr (None, s1) \<Rightarrow> Inr (False, buffer, s1)
     | Inr (Some i, s1) \<Rightarrow>
         (case memcpy buffer buffer_ofs (data (buffer_head s1 ! i)) sector_ofs chunk_size of
            Inl e \<Rightarrow> Inl e
          | Inr buffer' \<Rightarrow>
              Inr (True, buffer',
                   s1\<lparr>buffer_head := (buffer_head s1)
                        [i := (buffer_head s1 ! i)\<lparr>clock_bit := True\<rparr>]\<rparr>)))"

text \<open>
  \<^verbatim>\<open>bc_write (sector_idx, buffer, buffer_ofs, chunk_size, sector_ofs)\<close>: on a miss the
  victim slot is filled by \<^verbatim>\<open>block_read\<close> before the copy-in; the head is updated after
  the copy.
\<close>

definition bc_write ::
  "'a bc_state_scheme \<Rightarrow> block_sector_t \<Rightarrow> byte list \<Rightarrow> off_t \<Rightarrow> int \<Rightarrow> int \<Rightarrow>
   error + (bool \<times> 'a bc_state_scheme)" where
  "bc_write s sector_idx buffer buffer_ofs chunk_size sector_ofs =
    (case (case bc_lookup s sector_idx of
             Some i \<Rightarrow> Inr (Some i, s)
           | None \<Rightarrow>
               (case bc_select_victim s of
                  Inl e \<Rightarrow> Inl e
                | Inr (None, s1) \<Rightarrow> Inr (None, s1)
                | Inr (Some i, s1) \<Rightarrow>
                    (case block_read (fs_device s1) sector_idx of
                       Inl e \<Rightarrow> Inl e
                     | Inr bytes \<Rightarrow>
                         Inr (Some i,
                              s1\<lparr>buffer_head := (buffer_head s1)
                                   [i := (buffer_head s1 ! i)\<lparr>data := bytes\<rparr>]\<rparr>)))) of
       Inl e \<Rightarrow> Inl e
     | Inr (None, s1) \<Rightarrow> Inr (False, s1)
     | Inr (Some i, s1) \<Rightarrow>
         (case memcpy (data (buffer_head s1 ! i)) sector_ofs buffer buffer_ofs chunk_size of
            Inl e \<Rightarrow> Inl e
          | Inr data' \<Rightarrow>
              Inr (True,
                   s1\<lparr>buffer_head := (buffer_head s1)
                        [i := (buffer_head s1 ! i)
                           \<lparr>data := data', dirty := True, valid := True,
                            sector := sector_idx, clock_bit := True\<rparr>]\<rparr>)))"

text \<open>\<^verbatim>\<open>bc_flush_all_entries\<close>: every dirty slot is written back, in index order.\<close>

fun bc_flush_from :: "nat \<Rightarrow> nat \<Rightarrow> 'a bc_state_scheme \<Rightarrow> error + 'a bc_state_scheme" where
  "bc_flush_from 0 idx s = Inr s"
| "bc_flush_from (Suc n) idx s =
    (if dirty (buffer_head s ! idx) then
       (case bc_flush_entry s idx of
          Inl e \<Rightarrow> Inl e
        | Inr s1 \<Rightarrow> bc_flush_from n (Suc idx) s1)
     else bc_flush_from n (Suc idx) s)"

definition bc_flush_all_entries :: "'a bc_state_scheme \<Rightarrow> error + 'a bc_state_scheme" where
  "bc_flush_all_entries s = bc_flush_from (BUFFER_CACHE_ENTRY_NB s) 0 s"

section \<open>Results that may fail\<close>

text \<open>Sequencing of two steps of which the first may stop the kernel.\<close>

definition ebind :: "error + 'a \<Rightarrow> ('a \<Rightarrow> error + 'b) \<Rightarrow> error + 'b" where
  "ebind m f = (case m of Inl e \<Rightarrow> Inl e | Inr x \<Rightarrow> f x)"

lemma ebind_Inl [simp]: "ebind (Inl e) f = Inl e"
  by (simp add: ebind_def)

lemma ebind_Inr [simp]: "ebind (Inr x) f = f x"
  by (simp add: ebind_def)

lemma ebind_cong [fundef_cong]:
  "m = m' \<Longrightarrow> (\<And>x. m' = Inr x \<Longrightarrow> f x = f' x) \<Longrightarrow> ebind m f = ebind m' f'"
  by (cases m') (simp_all add: ebind_def)

lemma ebind_InrE:
  assumes "ebind m f = Inr y"
  obtains x where "m = Inr x" "f x = Inr y"
  using assms by (cases m) simp_all

text \<open>An array of a declared size, indexed by a C \<^verbatim>\<open>int\<close>.\<close>

definition array_get :: "'a list \<Rightarrow> int \<Rightarrow> error + 'a" where
  "array_get xs i = (if 0 \<le> i \<and> i < int (length xs) then Inr (xs ! nat i) else Inl OutOfBounds)"

definition array_set :: "'a list \<Rightarrow> int \<Rightarrow> 'a \<Rightarrow> error + 'a list" where
  "array_set xs i v =
    (if 0 \<le> i \<and> i < int (length xs) then Inr (xs[nat i := v]) else Inl OutOfBounds)"

section \<open>On-disk structures\<close>

text \<open>
  The layout is little-endian (x86): a 32-bit field is four bytes, least significant
  first.
\<close>

definition word_bytes :: "32 word \<Rightarrow> byte list" where
  "word_bytes w =
    (let n = unat w in
     [of_nat (n mod 256), of_nat (n div 256 mod 256), of_nat (n div 256 div 256 mod 256),
      of_nat (n div 256 div 256 div 256 mod 256)])"

definition bytes_word :: "byte list \<Rightarrow> 32 word" where
  "bytes_word bs =
    of_nat (unat (bs ! 0) + 256 * (unat (bs ! 1) + 256 * (unat (bs ! 2) + 256 * unat (bs ! 3))))"

text \<open>The \<open>i\<close>-th 32-bit field of a buffer.\<close>

definition word_at :: "byte list \<Rightarrow> nat \<Rightarrow> 32 word" where
  "word_at buf i = bytes_word (take 4 (drop (4 * i) buf))"

definition INODE_MAGIC :: "32 word" where
  "INODE_MAGIC = 0x494e4f44"

text \<open>
  \<^verbatim>\<open>struct inode_disk\<close>, exactly one sector. The field \<^verbatim>\<open>length\<close> is \<open>length_field\<close>
  here, since \<open>length\<close> is the length of a list.
\<close>

record inode_disk =
  direct_map_table :: "block_sector_t list"
  indirect_block_sec :: block_sector_t
  double_indirect_block_sec :: block_sector_t
  length_field :: off_t
  magic :: "32 word"
  is_dir :: "32 word"

text \<open>The structure as the 128 words it occupies in memory, and as bytes.\<close>

definition inode_disk_words :: "inode_disk \<Rightarrow> 32 word list" where
  "inode_disk_words d =
    direct_map_table d @
    [indirect_block_sec d, double_indirect_block_sec d, word_of_int (length_field d),
     magic d, is_dir d]"

definition inode_disk_bytes :: "inode_disk \<Rightarrow> byte list" where
  "inode_disk_bytes d = concat (map word_bytes (inode_disk_words d))"

definition bytes_inode_disk :: "byte list \<Rightarrow> inode_disk" where
  "bytes_inode_disk buf =
    \<lparr>direct_map_table = map (word_at buf) [0..<nat DIRECT_BLOCK_ENTRIES],
     indirect_block_sec = word_at buf 123,
     double_indirect_block_sec = word_at buf 124,
     length_field = sint (word_at buf 125),
     magic = word_at buf 126,
     is_dir = word_at buf 127\<rparr>"

text \<open>\<^verbatim>\<open>struct inode_indirect_block\<close>: the array \<^verbatim>\<open>map_table\<close> of 128 sector numbers.\<close>

definition indirect_block_bytes :: "block_sector_t list \<Rightarrow> byte list" where
  "indirect_block_bytes map_table = concat (map word_bytes map_table)"

definition bytes_indirect_block :: "byte list \<Rightarrow> block_sector_t list" where
  "bytes_indirect_block buf = map (word_at buf) [0..<nat INDIRECT_BLOCK_ENTRIES]"

text \<open>
  \<^verbatim>\<open>map_table_offset\<close>: the array is the first member of its structure, so the base
  offset is 0.
\<close>

definition map_table_offset :: "int \<Rightarrow> off_t" where
  "map_table_offset index = 0 + index * 4"

text \<open>
  Memory from \<^verbatim>\<open>malloc\<close> is not initialised. The model starts it as zero bytes; each
  use below has \<^verbatim>\<open>bc_read\<close> overwrite all of it before a field is read.
\<close>

definition fresh_block :: "byte list" where
  "fresh_block = replicate (nat BLOCK_SECTOR_SIZE) 0"

section \<open>State of the inode layer\<close>

text \<open>
  \<^verbatim>\<open>struct inode\<close>, the in-memory inode. \<^verbatim>\<open>extend_lock\<close> is the mutex; the field says
  whether it is held. The list element \<^verbatim>\<open>elem\<close> is the membership in \<open>open_inodes\<close>.
\<close>

record inode =
  sector :: block_sector_t
  open_cnt :: int
  removed :: bool
  deny_write_cnt :: int
  extend_lock :: bool

text \<open>
  The state adds to the buffer cache: the list \<^verbatim>\<open>open_inodes\<close>; the free map, one bit
  per sector (\<open>True\<close>: in use); and the outcomes of the coming calls of \<^verbatim>\<open>malloc\<close> and
  \<^verbatim>\<open>calloc\<close> (threads/malloc.c is not among the sources, and whether the kernel heap
  can serve a request is not decided by the file system): \<open>True\<close> for an allocation
  that succeeds; when the list is used up every allocation succeeds.
\<close>

record fs_state = bc_state +
  malloc_script :: "bool list"
  free_map :: "bool list"
  open_inodes :: "inode list"

definition malloc :: "'a fs_state_scheme \<Rightarrow> bool \<times> 'a fs_state_scheme" where
  "malloc s =
    (case malloc_script s of
       [] \<Rightarrow> (True, s)
     | ok # rest \<Rightarrow> (ok, s\<lparr>malloc_script := rest\<rparr>))"

text \<open>
  Modelled from the spec: the free-sector map (free-map.c is not among the sources).
  \<^verbatim>\<open>allocate (n, &first)\<close> finds \<open>n\<close> contiguous clear bits, sets them and returns the
  first index, and fails if there are none; the model takes the lowest such index.
  \<^verbatim>\<open>release (sector, n)\<close> clears \<open>n\<close> bits starting at \<open>sector\<close>.
\<close>

definition free_map_allocate ::
  "'a fs_state_scheme \<Rightarrow> nat \<Rightarrow> block_sector_t option \<times> 'a fs_state_scheme" where
  "free_map_allocate s cnt =
    (case find (\<lambda>i. list_all (\<lambda>j. \<not> free_map s ! j) [i..<i + cnt])
            [0..<Suc (length (free_map s)) - cnt] of
       None \<Rightarrow> (None, s)
     | Some i \<Rightarrow>
         (Some (of_nat i),
          s\<lparr>free_map := fold (\<lambda>j fm. fm[j := True]) [i..<i + cnt] (free_map s)\<rparr>))"

definition free_map_release ::
  "'a fs_state_scheme \<Rightarrow> block_sector_t \<Rightarrow> nat \<Rightarrow> 'a fs_state_scheme" where
  "free_map_release s sec cnt =
    s\<lparr>free_map := fold (\<lambda>j fm. fm[j := False]) [unat sec..<unat sec + cnt] (free_map s)\<rparr>"

text \<open>
  A \<^verbatim>\<open>struct inode *\<close> is \<open>None\<close> for \<^verbatim>\<open>NULL\<close> and otherwise names the inode by its
  sector: \<^verbatim>\<open>inode_open\<close> keeps one structure per sector in \<^verbatim>\<open>open_inodes\<close>. Reading
  through a pointer finds the structure in the list, writing replaces it there; a
  pointer whose structure is not in the list is dangling.
\<close>

type_synonym inode_ptr = "block_sector_t option"

definition inode_deref :: "'a fs_state_scheme \<Rightarrow> inode_ptr \<Rightarrow> error + inode" where
  "inode_deref s p =
    (case p of
       None \<Rightarrow> Inl BadPointer
     | Some sec \<Rightarrow>
         (case find (\<lambda>i. sector i = sec) (open_inodes s) of
            None \<Rightarrow> Inl BadPointer
          | Some i \<Rightarrow> Inr i))"

definition inode_store :: "'a fs_state_scheme \<Rightarrow> inode \<Rightarrow> 'a fs_state_scheme" where
  "inode_store s i =
    s\<lparr>open_inodes := map (\<lambda>j. if sector j = sector i then i else j) (open_inodes s)\<rparr>"

text \<open>
  Modelled from the spec: the mutex (threads/synch.c is not among the sources), with
  blocking \<^verbatim>\<open>acquire\<close> and \<^verbatim>\<open>release\<close>. The only mutex followed is the extension lock
  of an inode, named by the pointer to the inode. With one thread, acquiring a held
  mutex never returns, and releasing a mutex that is not held is a failed assertion.
\<close>

definition lock_acquire :: "'a fs_state_scheme \<Rightarrow> inode_ptr \<Rightarrow> error + 'a fs_state_scheme" where
  "lock_acquire s p =
    ebind (inode_deref s p) (\<lambda>i.
      if extend_lock i then Inl Deadlock else Inr (inode_store s (i\<lparr>extend_lock := True\<rparr>)))"

definition lock_release :: "'a fs_state_scheme \<Rightarrow> inode_ptr \<Rightarrow> error + 'a fs_state_scheme" where
  "lock_release s p =
    ebind (inode_deref s p) (\<lambda>i.
      if extend_lock i then Inr (inode_store s (i\<lparr>extend_lock := False\<rparr>)) else Inl Panic)"

section \<open>Inode layer\<close>

text \<open>
  \<^verbatim>\<open>get_disk_inode\<close> reads the sector of the inode into the caller's structure and
  returns true. It only reads \<^verbatim>\<open>inode->sector\<close>, so it takes the structure.
\<close>

definition get_disk_inode ::
  "'a fs_state_scheme \<Rightarrow> inode \<Rightarrow> error + (bool \<times> inode_disk \<times> 'a fs_state_scheme)" where
  "get_disk_inode s inode =
    ebind (bc_read s (sector inode) fresh_block 0 BLOCK_SECTOR_SIZE 0) (\<lambda>(ok, buf, s1).
      Inr (True, bytes_inode_disk buf, s1))"

text \<open>The local \<^verbatim>\<open>struct sector_location\<close> before \<^verbatim>\<open>locate_byte\<close> fills it.\<close>

definition fresh_sector_location :: sector_location where
  "fresh_sector_location = \<lparr>directness = OUT_LIMIT, index1 = 0, index2 = 0\<rparr>"

text \<open>
  \<^verbatim>\<open>byte_to_sector\<close>. Both assertions test \<^verbatim>\<open>indirect_block_sec\<close>, as in the source.
\<close>

definition byte_to_sector ::
  "'a fs_state_scheme \<Rightarrow> inode_disk \<Rightarrow> off_t \<Rightarrow> error + (block_sector_t \<times> 'a fs_state_scheme)" where
  "byte_to_sector s inode_disk pos =
    (if pos < length_field inode_disk then
       (let sec_loc = locate_byte pos fresh_sector_location in
        case directness sec_loc of
          NORMAL_DIRECT \<Rightarrow>
            ebind (array_get (direct_map_table inode_disk) (index1 sec_loc)) (\<lambda>result_sec.
              Inr (result_sec, s))
        | INDIRECT \<Rightarrow>
            (if indirect_block_sec inode_disk = 0 then Inl Panic
             else
               (case malloc s of
                  (False, s1) \<Rightarrow> Inr (0, s1)
                | (True, s1) \<Rightarrow>
                    ebind (bc_read s1 (indirect_block_sec inode_disk) fresh_block 0
                             BLOCK_SECTOR_SIZE 0) (\<lambda>(ok, ind_block, s2).
                    ebind (array_get (bytes_indirect_block ind_block) (index1 sec_loc))
                      (\<lambda>result_sec. Inr (result_sec, s2)))))
        | DOUBLE_INDIRECT \<Rightarrow>
            (if indirect_block_sec inode_disk = 0 then Inl Panic
             else
               (case malloc s of
                  (False, s1) \<Rightarrow> Inr (0, s1)
                | (True, s1) \<Rightarrow>
                    ebind (bc_read s1 (double_indirect_block_sec inode_disk) fresh_block 0
                             BLOCK_SECTOR_SIZE 0) (\<lambda>(ok, ind_block, s2).
                    ebind (array_get (bytes_indirect_block ind_block) (index1 sec_loc))
                      (\<lambda>second_level.
                    if second_level = 0 then Inl Panic
                    else
                      ebind (bc_read s2 second_level ind_block 0 BLOCK_SECTOR_SIZE 0)
                        (\<lambda>(ok', ind_block', s3).
                      ebind (array_get (bytes_indirect_block ind_block') (index2 sec_loc))
                        (\<lambda>result_sec. Inr (result_sec, s3)))))))
        | OUT_LIMIT \<Rightarrow> Inr (0, s))
     else Inr (0, s))"

text \<open>
  \<^verbatim>\<open>register_sector\<close> returns the success flag, the caller's \<^verbatim>\<open>inode_disk\<close> and the
  state. \<^verbatim>\<open>free_map_allocate\<close> stores the sector through its pointer argument only
  when it succeeds.
\<close>

definition register_sector ::
  "'a fs_state_scheme \<Rightarrow> inode_disk \<Rightarrow> block_sector_t \<Rightarrow> sector_location \<Rightarrow>
   error + (bool \<times> inode_disk \<times> 'a fs_state_scheme)" where
  "register_sector s inode_disk new_sector sec_loc =
    (case directness sec_loc of
       NORMAL_DIRECT \<Rightarrow>
         ebind (array_set (direct_map_table inode_disk) (index1 sec_loc) new_sector) (\<lambda>tbl.
           Inr (True, inode_disk\<lparr>direct_map_table := tbl\<rparr>, s))
     | INDIRECT \<Rightarrow>
         (case malloc s of
            (False, s1) \<Rightarrow> Inr (False, inode_disk, s1)
          | (True, s1) \<Rightarrow>
              if indirect_block_sec inode_disk = 0 then
                (case free_map_allocate s1 1 of
                   (None, s2) \<Rightarrow> Inr (False, inode_disk, s2)
                 | (Some sec, s2) \<Rightarrow>
                     ebind (array_set (replicate (nat INDIRECT_BLOCK_ENTRIES) 0)
                              (index1 sec_loc) new_sector) (\<lambda>new_block.
                     ebind (bc_write s2 sec (indirect_block_bytes new_block) 0
                              BLOCK_SECTOR_SIZE 0) (\<lambda>(ok, s3).
                       Inr (True, inode_disk\<lparr>indirect_block_sec := sec\<rparr>, s3))))
              else
                ebind (bc_write s1 (indirect_block_sec inode_disk) (word_bytes new_sector) 0 4
                         (map_table_offset (index1 sec_loc))) (\<lambda>(ok, s2).
                  Inr (True, inode_disk, s2)))
     | DOUBLE_INDIRECT \<Rightarrow>
         (case malloc s of
            (False, s1) \<Rightarrow> Inr (False, inode_disk, s1)
          | (True, s1) \<Rightarrow>
              ebind
                (if double_indirect_block_sec inode_disk = 0 then
                   (case free_map_allocate s1 1 of
                      (None, s2) \<Rightarrow> Inr (False, inode_disk, s2)
                    | (Some sec, s2) \<Rightarrow>
                        ebind (bc_write s2 sec
                                 (indirect_block_bytes (replicate (nat INDIRECT_BLOCK_ENTRIES) 0))
                                 0 BLOCK_SECTOR_SIZE 0) (\<lambda>(ok, s3).
                          Inr (True, inode_disk\<lparr>double_indirect_block_sec := sec\<rparr>, s3)))
                 else Inr (True, inode_disk, s1))
                (\<lambda>(have_first_level, d1, s4).
                  if \<not> have_first_level then Inr (False, d1, s4)
                  else
                    ebind (bc_read s4 (double_indirect_block_sec d1) (word_bytes 0) 0 4
                             (map_table_offset (index1 sec_loc))) (\<lambda>(ok, buf, s5).
                      if bytes_word buf = 0 then
                        (case free_map_allocate s5 1 of
                           (None, s6) \<Rightarrow> Inr (False, d1, s6)
                         | (Some ind_block_2nd_level, s6) \<Rightarrow>
                             ebind (bc_write s6 (double_indirect_block_sec d1)
                                      (word_bytes ind_block_2nd_level) 0 4
                                      (map_table_offset (index1 sec_loc))) (\<lambda>(ok', s7).
                             ebind (array_set (replicate (nat INDIRECT_BLOCK_ENTRIES) 0)
                                      (index2 sec_loc) new_sector) (\<lambda>new_block.
                             ebind (bc_write s7 ind_block_2nd_level
                                      (indirect_block_bytes new_block) 0 BLOCK_SECTOR_SIZE 0)
                               (\<lambda>(ok'', s8). Inr (True, d1, s8)))))
                      else
                        ebind (bc_write s5 (bytes_word buf) (word_bytes new_sector) 0 4
                                 (map_table_offset (index2 sec_loc))) (\<lambda>(ok', s6).
                          Inr (True, d1, s6)))))
     | OUT_LIMIT \<Rightarrow> Inr (False, inode_disk, s))"

text \<open>
  The \<^verbatim>\<open>while (size > 0)\<close> loop of \<^verbatim>\<open>inode_update_file_length\<close>; \<open>zeroes\<close> is the
  \<^verbatim>\<open>calloc\<close>'ed sector of zero bytes.
\<close>

function update_file_length_loop ::
  "'a fs_state_scheme \<Rightarrow> inode_disk \<Rightarrow> byte list \<Rightarrow> off_t \<Rightarrow> int \<Rightarrow>
   error + (bool \<times> inode_disk \<times> 'a fs_state_scheme)" where
  "update_file_length_loop s inode_disk zeroes offset size' =
    (if size' > 0 then
       (let sector_ofs = offset smod BLOCK_SECTOR_SIZE;
            sector_left = BLOCK_SECTOR_SIZE - sector_ofs;
            chunk_size = (if size' < sector_left then size' else sector_left)
        in if chunk_size \<le> 0 then Inr (True, inode_disk, s)
           else if sector_ofs > 0 then
             ebind (byte_to_sector s inode_disk offset) (\<lambda>(sector_idx, s1).
               if sector_idx = 0 then Inl Panic
               else
                 ebind (bc_write s1 sector_idx zeroes 0 sector_left sector_ofs) (\<lambda>(ok, s2).
                   update_file_length_loop s2 inode_disk zeroes (offset + chunk_size)
                     (size' - chunk_size)))
           else
             (case free_map_allocate s 1 of
                (None, s1) \<Rightarrow> Inr (False, inode_disk, s1)
              | (Some sector_idx, s1) \<Rightarrow>
                  ebind (register_sector s1 inode_disk sector_idx
                           (locate_byte offset fresh_sector_location)) (\<lambda>(ok, d1, s2).
                    if \<not> ok then Inr (False, d1, free_map_release s2 sector_idx 1)
                    else
                      ebind (bc_write s2 sector_idx zeroes 0 BLOCK_SECTOR_SIZE 0) (\<lambda>(ok', s3).
                        update_file_length_loop s3 d1 zeroes (offset + chunk_size)
                          (size' - chunk_size)))))
     else Inr (True, inode_disk, s))"
  by pat_completeness auto
termination
  by (relation "measure (\<lambda>(s, inode_disk, zeroes, offset, size'). nat size')") auto

declare update_file_length_loop.simps [simp del]

definition inode_update_file_length ::
  "'a fs_state_scheme \<Rightarrow> inode_disk \<Rightarrow> off_t \<Rightarrow> off_t \<Rightarrow>
   error + (bool \<times> inode_disk \<times> 'a fs_state_scheme)" where
  "inode_update_file_length s inode_disk start_pos end_pos =
    (if \<not> start_pos \<le> end_pos then Inl Panic
     else
       (case malloc s of
          (False, s1) \<Rightarrow> Inr (False, inode_disk, s1)
        | (True, s1) \<Rightarrow>
            update_file_length_loop s1 inode_disk fresh_block start_pos (end_pos - start_pos + 1)))"

text \<open>\<^verbatim>\<open>inode_create\<close>; the structure comes zeroed from \<^verbatim>\<open>calloc\<close>.\<close>

definition inode_create ::
  "'a fs_state_scheme \<Rightarrow> block_sector_t \<Rightarrow> off_t \<Rightarrow> 32 word \<Rightarrow>
   error + (bool \<times> 'a fs_state_scheme)" where
  "inode_create s sec len isdir =
    (if \<not> len \<ge> 0 then Inl Panic
     else
       (case malloc s of
          (False, s1) \<Rightarrow> Inr (False, s1)
        | (True, s1) \<Rightarrow>
            (let disk_inode =
               \<lparr>direct_map_table = replicate (nat DIRECT_BLOCK_ENTRIES) 0,
                indirect_block_sec = 0, double_indirect_block_sec = 0,
                length_field = len, magic = INODE_MAGIC, is_dir = isdir\<rparr>
             in ebind (if len > 0 then inode_update_file_length s1 disk_inode 0 (len - 1)
                       else Inr (True, disk_inode, s1)) (\<lambda>(grown, d1, s2).
                  if \<not> grown then Inr (False, s2)
                  else
                    ebind (bc_write s2 sec (inode_disk_bytes d1) 0 BLOCK_SECTOR_SIZE 0)
                      (\<lambda>(ok, s3). Inr (True, s3))))))"

text \<open>\<^verbatim>\<open>inode_reopen\<close>\<close>

definition inode_reopen ::
  "'a fs_state_scheme \<Rightarrow> inode_ptr \<Rightarrow> error + (inode_ptr \<times> 'a fs_state_scheme)" where
  "inode_reopen s inode =
    (case inode of
       None \<Rightarrow> Inr (None, s)
     | Some sec \<Rightarrow>
         ebind (inode_deref s inode) (\<lambda>i.
           Inr (inode, inode_store s (i\<lparr>open_cnt := open_cnt i + 1\<rparr>))))"

text \<open>\<^verbatim>\<open>inode_open\<close>: the structure already in the list, reopened, or a new one at
  the front of the list.\<close>

definition inode_open ::
  "'a fs_state_scheme \<Rightarrow> block_sector_t \<Rightarrow> error + (inode_ptr \<times> 'a fs_state_scheme)" where
  "inode_open s sec =
    (case find (\<lambda>i. sector i = sec) (open_inodes s) of
       Some i \<Rightarrow> inode_reopen s (Some sec)
     | None \<Rightarrow>
         (case malloc s of
            (False, s1) \<Rightarrow> Inr (None, s1)
          | (True, s1) \<Rightarrow>
              Inr (Some sec,
                   s1\<lparr>open_inodes :=
                        \<lparr>sector = sec, open_cnt = 1, removed = False, deny_write_cnt = 0,
                         extend_lock = False\<rparr> # open_inodes s1\<rparr>)))"

definition inode_get_inumber :: "'a fs_state_scheme \<Rightarrow> inode_ptr \<Rightarrow> error + block_sector_t" where
  "inode_get_inumber s inode = ebind (inode_deref s inode) (\<lambda>i. Inr (sector i))"

text \<open>
  The loops \<^verbatim>\<open>while (tbl[i] > 0) { free_map_release (tbl[i], 1); i++; }\<close> of
  \<^verbatim>\<open>free_inode_sectors\<close>, given the words from \<open>tbl[0]\<close> to the end of the object that
  holds the array. The loops have no bound of their own: when no word is zero the
  index leaves the object.
\<close>

fun release_entries ::
  "block_sector_t list \<Rightarrow> 'a fs_state_scheme \<Rightarrow> error + 'a fs_state_scheme" where
  "release_entries [] s = Inl OutOfBounds"
| "release_entries (e # es) s =
    (if e > 0 then release_entries es (free_map_release s e 1) else Inr s)"

text \<open>The outer loop over the first-level block of the double-indirect tree.\<close>

fun release_second_level ::
  "block_sector_t list \<Rightarrow> byte list \<Rightarrow> 'a fs_state_scheme \<Rightarrow> error + 'a fs_state_scheme" where
  "release_second_level [] ind_block_2 s = Inl OutOfBounds"
| "release_second_level (e # es) ind_block_2 s =
    (if e > 0 then
       ebind (bc_read s e ind_block_2 0 BLOCK_SECTOR_SIZE 0) (\<lambda>(ok, ind_block_2', s1).
       ebind (release_entries (bytes_indirect_block ind_block_2') s1) (\<lambda>s2.
         release_second_level es ind_block_2' (free_map_release s2 e 1)))
     else Inr s)"

text \<open>
  \<^verbatim>\<open>free_inode_sectors\<close>. In the branch for the single-indirect block the block read
  is \<^verbatim>\<open>double_indirect_block_sec\<close>, as in the source. The last loop runs over
  \<^verbatim>\<open>direct_map_table\<close> and, having no bound, on into the fields that follow the array
  in the structure.
\<close>

definition free_inode_sectors ::
  "'a fs_state_scheme \<Rightarrow> inode_disk \<Rightarrow> error + 'a fs_state_scheme" where
  "free_inode_sectors s inode_disk =
    ebind
      (if double_indirect_block_sec inode_disk > 0 then
         (case malloc s of
            (ok1, s1) \<Rightarrow>
              (case malloc s1 of
                 (ok2, s2) \<Rightarrow>
                   if \<not> ok1 \<or> \<not> ok2 then Inr (False, s2)
                   else
                     ebind (bc_read s2 (double_indirect_block_sec inode_disk) fresh_block 0
                              BLOCK_SECTOR_SIZE 0) (\<lambda>(ok, ind_block_1, s3).
                     ebind (release_second_level (bytes_indirect_block ind_block_1)
                              fresh_block s3) (\<lambda>s4.
                       Inr (True,
                            free_map_release s4 (double_indirect_block_sec inode_disk) 1)))))
       else Inr (True, s))
      (\<lambda>(go_on, s5).
        if \<not> go_on then Inr s5
        else
          ebind
            (if indirect_block_sec inode_disk > 0 then
               (case malloc s5 of
                  (False, s6) \<Rightarrow> Inr (False, s6)
                | (True, s6) \<Rightarrow>
                    ebind (bc_read s6 (double_indirect_block_sec inode_disk) fresh_block 0
                             BLOCK_SECTOR_SIZE 0) (\<lambda>(ok, ind_block, s7).
                    ebind (release_entries (bytes_indirect_block ind_block) s7) (\<lambda>s8.
                      Inr (True, free_map_release s8 (indirect_block_sec inode_disk) 1))))
             else Inr (True, s5))
            (\<lambda>(go_on', s9).
              if \<not> go_on' then Inr s9
              else release_entries (inode_disk_words inode_disk) s9))"

text \<open>
  \<^verbatim>\<open>inode_close\<close>. \<^verbatim>\<open>list_remove\<close> takes the structure out of \<^verbatim>\<open>open_inodes\<close>; it is
  freed at the end, so the block release in between still reads its fields.
\<close>

definition inode_close :: "'a fs_state_scheme \<Rightarrow> inode_ptr \<Rightarrow> error + 'a fs_state_scheme" where
  "inode_close s inode =
    (case inode of
       None \<Rightarrow> Inr s
     | Some sec \<Rightarrow>
         ebind (inode_deref s inode) (\<lambda>i0.
           (let i = i0\<lparr>open_cnt := open_cnt i0 - 1\<rparr>;
                s1 = inode_store s i
            in if open_cnt i = 0 then
                 (let s2 = s1\<lparr>open_inodes := filter (\<lambda>j. sector j \<noteq> sec) (open_inodes s1)\<rparr>
                  in if removed i then
                       (case malloc s2 of
                          (False, s3) \<Rightarrow> Inl Panic
                        | (True, s3) \<Rightarrow>
                            ebind (get_disk_inode s3 i) (\<lambda>(ok, disk_inode, s4).
                            ebind (free_inode_sectors s4 disk_inode) (\<lambda>s5.
                              Inr (free_map_release s5 (sector i) 1))))
                     else Inr s2)
               else Inr s1)))"

text \<open>\<^verbatim>\<open>inode_remove\<close>, with its assertion that the pointer is not null.\<close>

definition inode_remove :: "'a fs_state_scheme \<Rightarrow> inode_ptr \<Rightarrow> error + 'a fs_state_scheme" where
  "inode_remove s inode =
    (case inode of
       None \<Rightarrow> Inl Panic
     | Some sec \<Rightarrow> ebind (inode_deref s inode) (\<lambda>i. Inr (inode_store s (i\<lparr>removed := True\<rparr>))))"

text \<open>The \<^verbatim>\<open>while (size > 0)\<close> loop of \<^verbatim>\<open>inode_read_at\<close>.\<close>

function inode_read_loop ::
  "'a fs_state_scheme \<Rightarrow> inode_disk \<Rightarrow> byte list \<Rightarrow> off_t \<Rightarrow> off_t \<Rightarrow> off_t \<Rightarrow>
   error + (off_t \<times> byte list \<times> 'a fs_state_scheme)" where
  "inode_read_loop s disk_inode buffer size' offset bytes_read =
    (if size' > 0 then
       (let sector_ofs = offset smod BLOCK_SECTOR_SIZE;
            inode_left = length_field disk_inode - offset;
            sector_left = BLOCK_SECTOR_SIZE - sector_ofs;
            min_left = (if inode_left < sector_left then inode_left else sector_left);
            chunk_size = (if size' < min_left then size' else min_left)
        in if chunk_size \<le> 0 then Inr (bytes_read, buffer, s)
           else
             ebind (byte_to_sector s disk_inode offset) (\<lambda>(sector_idx, s1).
               if sector_idx = 0 then Inr (bytes_read, buffer, s1)
               else
                 ebind (bc_read s1 sector_idx buffer bytes_read chunk_size sector_ofs)
                   (\<lambda>(ok, buffer', s2).
                     inode_read_loop s2 disk_inode buffer' (size' - chunk_size)
                       (offset + chunk_size) (bytes_read + chunk_size))))
     else Inr (bytes_read, buffer, s))"
  by pat_completeness auto
termination
  by (relation "measure (\<lambda>(s, disk_inode, buffer, size', offset, bytes_read). nat size')") auto

declare inode_read_loop.simps [simp del]

definition inode_read_at ::
  "'a fs_state_scheme \<Rightarrow> inode_ptr \<Rightarrow> byte list \<Rightarrow> off_t \<Rightarrow> off_t \<Rightarrow>
   error + (off_t \<times> byte list \<times> 'a fs_state_scheme)" where
  "inode_read_at s inode buffer size' offset =
    (case malloc s of
       (False, s1) \<Rightarrow> Inr (0, buffer, s1)
     | (True, s1) \<Rightarrow>
         ebind (inode_deref s1 inode) (\<lambda>i.
         ebind (get_disk_inode s1 i) (\<lambda>(ok, disk_inode, s2).
           inode_read_loop s2 disk_inode buffer size' offset 0)))"

text \<open>
  The \<^verbatim>\<open>while (size > 0)\<close> loop of \<^verbatim>\<open>inode_write_at\<close>. \<^verbatim>\<open>inode_left\<close> and the new
  \<^verbatim>\<open>offset\<close> are the results that can leave the 32 bits; \<open>chunk_size\<close> is positive and
  at most \<open>size\<close>, and \<open>bytes_written + size\<close> stays the size of the call.
\<close>

function inode_write_loop ::
  "'a fs_state_scheme \<Rightarrow> inode_disk \<Rightarrow> byte list \<Rightarrow> off_t \<Rightarrow> off_t \<Rightarrow> off_t \<Rightarrow>
   error + (off_t \<times> 'a fs_state_scheme)" where
  "inode_write_loop s disk_inode buffer size' offset bytes_written =
    (if size' > 0 then
       (let sector_ofs = offset smod BLOCK_SECTOR_SIZE;
            inode_left = int32 (length_field disk_inode - offset);
            sector_left = BLOCK_SECTOR_SIZE - sector_ofs;
            min_left = (if inode_left < sector_left then inode_left else sector_left);
            chunk_size = (if size' < min_left then size' else min_left)
        in if chunk_size \<le> 0 then Inr (bytes_written, s)
           else
             ebind (byte_to_sector s disk_inode offset) (\<lambda>(sector_idx, s1).
               if sector_idx = 0 then Inr (bytes_written, s1)
               else
                 ebind (bc_write s1 sector_idx buffer bytes_written chunk_size sector_ofs)
                   (\<lambda>(ok, s2).
                     inode_write_loop s2 disk_inode buffer (size' - chunk_size)
                       (int32 (offset + chunk_size)) (bytes_written + chunk_size))))
     else Inr (bytes_written, s))"
  by pat_completeness auto
termination
  by (relation "measure (\<lambda>(s, disk_inode, buffer, size', offset, bytes_written). nat size')")
    auto

declare inode_write_loop.simps [simp del]

text \<open>
  \<^verbatim>\<open>inode_write_at\<close>. When \<^verbatim>\<open>inode_update_file_length\<close> fails the function returns 0
  from inside the region between \<^verbatim>\<open>lock_acquire\<close> and \<^verbatim>\<open>lock_release\<close>.
  \<^verbatim>\<open>write_end\<close>, \<^verbatim>\<open>old_length - 1\<close> and the new \<^verbatim>\<open>length\<close> are computed in \<^verbatim>\<open>int\<close>.
\<close>

definition inode_write_at ::
  "'a fs_state_scheme \<Rightarrow> inode_ptr \<Rightarrow> byte list \<Rightarrow> off_t \<Rightarrow> off_t \<Rightarrow>
   error + (off_t \<times> 'a fs_state_scheme)" where
  "inode_write_at s inode buffer size' offset =
    (case malloc s of
       (False, s1) \<Rightarrow> Inr (0, s1)
     | (True, s1) \<Rightarrow>
         ebind (inode_deref s1 inode) (\<lambda>i.
         ebind (get_disk_inode s1 i) (\<lambda>(ok, disk_inode, s2).
           if deny_write_cnt i \<noteq> 0 then Inr (0, s2)
           else
             ebind (lock_acquire s2 inode) (\<lambda>s3.
               (let old_length = length_field disk_inode;
                    write_end = int32 (offset + size' - 1)
                in ebind
                     (if write_end > int32 (old_length - 1) then
                        inode_update_file_length s3
                          (disk_inode\<lparr>length_field := int32 (write_end + 1)\<rparr>)
                          old_length write_end
                      else Inr (True, disk_inode, s3))
                     (\<lambda>(grown, d1, s4).
                       if \<not> grown then Inr (0, s4)
                       else
                         ebind (lock_release s4 inode) (\<lambda>s5.
                         ebind (inode_write_loop s5 d1 buffer size' offset 0)
                           (\<lambda>(bytes_written, s6).
                         ebind (bc_write s6 (sector i) (inode_disk_bytes d1) 0
                                  BLOCK_SECTOR_SIZE 0) (\<lambda>(ok', s7).
                           Inr (bytes_written, s7))))))))))"

text \<open>\<^verbatim>\<open>inode_deny_write\<close>, \<^verbatim>\<open>inode_allow_write\<close>, with their assertions.\<close>

definition inode_deny_write :: "'a fs_state_scheme \<Rightarrow> inode_ptr \<Rightarrow> error + 'a fs_state_scheme" where
  "inode_deny_write s inode =
    ebind (inode_deref s inode) (\<lambda>i0.
      (let i = i0\<lparr>deny_write_cnt := deny_write_cnt i0 + 1\<rparr>
       in if deny_write_cnt i \<le> open_cnt i then Inr (inode_store s i) else Inl Panic))"

definition inode_allow_write :: "'a fs_state_scheme \<Rightarrow> inode_ptr \<Rightarrow> error + 'a fs_state_scheme" where
  "inode_allow_write s inode =
    ebind (inode_deref s inode) (\<lambda>i.
      if \<not> deny_write_cnt i > 0 then Inl Panic
      else if \<not> deny_write_cnt i \<le> open_cnt i then Inl Panic
      else Inr (inode_store s (i\<lparr>deny_write_cnt := deny_write_cnt i - 1\<rparr>)))"

text \<open>\<^verbatim>\<open>inode_length\<close>\<close>

definition inode_length ::
  "'a fs_state_scheme \<Rightarrow> inode_ptr \<Rightarrow> error + (off_t \<times> 'a fs_state_scheme)" where
  "inode_length s inode =
    (case malloc s of
       (False, s1) \<Rightarrow> Inr (0, s1)
     | (True, s1) \<Rightarrow>
         ebind (inode_deref s1 inode) (\<lambda>i.
         ebind (get_disk_inode s1 i) (\<lambda>(ok, disk_inode, s2).
           Inr (length_field disk_inode, s2))))"

text \<open>\<^verbatim>\<open>inode_is_dir\<close>: the \<^verbatim>\<open>uint32_t\<close> field converted to \<^verbatim>\<open>bool\<close>.\<close>

definition inode_is_dir ::
  "'a fs_state_scheme \<Rightarrow> inode_ptr \<Rightarrow> error + (bool \<times> 'a fs_state_scheme)" where
  "inode_is_dir s inode =
    (case malloc s of
       (False, s1) \<Rightarrow> Inr (False, s1)
     | (True, s1) \<Rightarrow>
         ebind (inode_deref s1 inode) (\<lambda>i.
         ebind (bc_read s1 (sector i) fresh_block 0 BLOCK_SECTOR_SIZE 0) (\<lambda>(ok, buf, s2).
           Inr (is_dir (bytes_inode_disk buf) \<noteq> 0, s2))))"

definition inode_is_removed :: "'a fs_state_scheme \<Rightarrow> inode_ptr \<Rightarrow> error + bool" where
  "inode_is_removed s inode = ebind (inode_deref s inode) (\<lambda>i. Inr (removed i))"

section \<open>What the file system sees of a sector\<close>

text \<open>
  Every access to a sector goes through \<^verbatim>\<open>bc_read\<close> and \<^verbatim>\<open>bc_write\<close>, which serve it
  from the slot \<^verbatim>\<open>bc_lookup\<close> finds and from the device otherwise. \<open>sector_view\<close> is
  the contents of a sector in this sense, \<open>disk_image\<close> the contents of all sectors of
  the device.
\<close>

definition sector_view :: "'a bc_state_scheme \<Rightarrow> block_sector_t \<Rightarrow> byte list" where
  "sector_view s sec =
    (case bc_lookup s sec of
       Some i \<Rightarrow> data (buffer_head s ! i)
     | None \<Rightarrow> fs_device s ! unat sec)"

definition disk_image :: "'a bc_state_scheme \<Rightarrow> byte list list" where
  "disk_image s = map (\<lambda>n. sector_view s (of_nat n)) [0..<length (fs_device s)]"

text \<open>
  A slot is in order when it is empty (\<^verbatim>\<open>sector\<close> is -1, not dirty) or holds a sector
  of the device in \<^verbatim>\<open>BLOCK_SECTOR_SIZE\<close> bytes that, unless the slot is dirty, are the
  bytes on the device.
\<close>

definition head_ok :: "byte list list \<Rightarrow> buffer_head \<Rightarrow> bool" where
  "head_ok dev h =
    (if buffer_head.sector h = - 1 then \<not> dirty h
     else unat (buffer_head.sector h) < length dev \<and>
          length (data h) = nat BLOCK_SECTOR_SIZE \<and>
          (if dirty h then True else data h = dev ! unat (buffer_head.sector h)))"

text \<open>
  The state of the buffer cache that \<^verbatim>\<open>bc_init\<close> sets up and the operations keep:
  the clock hand is a slot index, every slot is in order, no sector has two slots,
  and the device has fewer than \<open>2 ^ 32\<close> sectors of \<^verbatim>\<open>BLOCK_SECTOR_SIZE\<close> bytes.
\<close>

definition bc_inv :: "'a bc_state_scheme \<Rightarrow> bool" where
  "bc_inv s =
    (clock_hand s < length (buffer_head s) \<and>
     length (fs_device s) < 2 ^ 32 \<and>
     list_all (\<lambda>d. length d = nat BLOCK_SECTOR_SIZE) (fs_device s) \<and>
     list_all (head_ok (fs_device s)) (buffer_head s) \<and>
     distinct (filter (\<lambda>x. x \<noteq> - 1) (map buffer_head.sector (buffer_head s))))"

text \<open>
  The length of the file whose inode is in sector \<open>sec\<close>: the \<^verbatim>\<open>length\<close> field of the
  on-disk inode as \<^verbatim>\<open>get_disk_inode\<close> reads it.
\<close>

definition on_disk_length :: "'a bc_state_scheme \<Rightarrow> block_sector_t \<Rightarrow> off_t" where
  "on_disk_length s sec = length_field (bytes_inode_disk (sector_view s sec))"

section \<open>A small file system\<close>

text \<open>
  A state to run the operations on: a cache of two empty slots, as \<^verbatim>\<open>bc_init\<close> leaves
  them, over a device of four sectors. Sector 1 holds the inode of a file of 10 bytes
  whose first data sector is sector 2; the inode is open once, with the given
  \<^verbatim>\<open>deny_write_cnt\<close>.
\<close>

definition empty_head :: buffer_head where
  "empty_head =
    \<lparr>dirty = False, valid = False, buffer_head.sector = - 1, clock_bit = False, data = fresh_block\<rparr>"

definition small_file :: inode_disk where
  "small_file =
    \<lparr>direct_map_table = (replicate (nat DIRECT_BLOCK_ENTRIES) 0)[0 := 2],
     indirect_block_sec = 0, double_indirect_block_sec = 0, length_field = 10,
     magic = INODE_MAGIC, is_dir = 0\<rparr>"

definition small_fs :: "int \<Rightarrow> fs_state" where
  "small_fs deny =
    \<lparr>buffer_head = [empty_head, empty_head], clock_hand = 0,
     fs_device = [fresh_block, inode_disk_bytes small_file, fresh_block, fresh_block],
     malloc_script = [], free_map = [True, True, True, False],
     open_inodes =
       [\<lparr>sector = 1, open_cnt = 1, removed = False, deny_write_cnt = deny,
         extend_lock = False\<rparr>]\<rparr>"

section \<open>A file with a single-indirect block\<close>

text \<open>
  A device of 128 sectors. Sector 0 holds the inode of the free-map file, whose
  bitmap is in sector 127. Sector 1 holds the inode of a file of 124 sectors: its
  direct sectors are 2 to 124, its single-indirect block is sector 125 and the one
  entry of that block is sector 126. Every sector is in use. The inode of the file
  is open once and has been removed from its directory.
\<close>

definition free_map_inode :: inode_disk where
  "free_map_inode =
    \<lparr>direct_map_table = 127 # replicate 122 0,
     indirect_block_sec = 0, double_indirect_block_sec = 0, length_field = 16,
     magic = INODE_MAGIC, is_dir = 0\<rparr>"

definition big_file :: inode_disk where
  "big_file =
    \<lparr>direct_map_table = map of_nat [2..<125],
     indirect_block_sec = 125, double_indirect_block_sec = 0, length_field = 124 * 512,
     magic = INODE_MAGIC, is_dir = 0\<rparr>"

definition big_fs :: fs_state where
  "big_fs =
    \<lparr>buffer_head = [empty_head, empty_head], clock_hand = 0,
     fs_device =
       [inode_disk_bytes free_map_inode, inode_disk_bytes big_file] @
       replicate 123 fresh_block @
       [indirect_block_bytes ((replicate (nat INDIRECT_BLOCK_ENTRIES) 0)[0 := 126]),
        fresh_block, fresh_block],
     malloc_script = [], free_map = replicate 128 True,
     open_inodes =
       [\<lparr>sector = 1, open_cnt = 1, removed = True, deny_write_cnt = 0,
         extend_lock = False\<rparr>]\<rparr>"

section \<open>Strings\<close>

text \<open>
  A C string is the list of its characters before the terminating 0. The two library
  functions are standard C (lib/string.c is not among the sources).
  \<^verbatim>\<open>strtok_r (s, delimiters, &save_ptr)\<close> skips leading delimiters, returns \<^verbatim>\<open>NULL\<close> at
  the end of the string, and otherwise returns the characters up to the next
  delimiter and leaves \<^verbatim>\<open>save_ptr\<close> behind that delimiter; a call with \<^verbatim>\<open>s = NULL\<close>
  goes on from \<^verbatim>\<open>save_ptr\<close>, so the model is applied to the string still to be read.
  \<^verbatim>\<open>strlcpy (dst, src, size)\<close> stores at most \<open>size - 1\<close> characters of \<open>src\<close> and
  returns the length of \<open>src\<close>.
\<close>

definition strtok_r :: "string \<Rightarrow> string \<Rightarrow> string option \<times> string" where
  "strtok_r s delimiters =
    (let s1 = dropWhile (\<lambda>c. c \<in> set delimiters) s
     in if s1 = [] then (None, [])
        else (Some (takeWhile (\<lambda>c. c \<notin> set delimiters) s1),
              drop 1 (dropWhile (\<lambda>c. c \<notin> set delimiters) s1)))"

definition strlcpy :: "string \<Rightarrow> nat \<Rightarrow> string \<times> nat" where
  "strlcpy src size' = (take (size' - 1) src, length src)"

section \<open>Directory layer\<close>

text \<open>
  Modelled from the spec: directory.c and directory.h are not among the sources. A
  directory is an inode whose data is an array of entries
  \<open>(name[NAME_MAX + 1], inode_sector, in_use)\<close>, entries with \<open>in_use = false\<close> being
  reusable slots; \<^verbatim>\<open>name\<close> has 15 characters with its terminator, so \<^verbatim>\<open>NAME_MAX\<close> is 14;
  the root directory's inode is in sector 1. The model keeps the array of a
  directory as a list under the sector of its inode; the data sectors that hold the
  array on the device, and those a growing directory takes from the free map, are
  outside the model. A directory handle is the inode and a cursor into the array.
\<close>

definition NAME_MAX :: nat where
  "NAME_MAX = 14"

definition ROOT_DIR_SECTOR :: block_sector_t where
  "ROOT_DIR_SECTOR = 1"

record dir_entry =
  entry_name :: string
  entry_inode_sector :: block_sector_t
  entry_in_use :: bool

record dir =
  dir_inode :: inode_ptr
  dir_pos :: nat

text \<open>
  The state of the file system adds the directories' arrays and the current
  directory of the calling thread (\<^verbatim>\<open>thread_current ()->cur_dir\<close>). The lock
  \<^verbatim>\<open>file_sys_lock\<close> is not followed: in \<^verbatim>\<open>filesys_create\<close> it is acquired and released on
  the same path.
\<close>

record filesys_state = fs_state +
  dir_data :: "block_sector_t \<Rightarrow> dir_entry list"
  cur_dir :: "dir option"

text \<open>Modelled from the spec: \<^verbatim>\<open>open (inode)\<close>, \<^verbatim>\<open>open_root ()\<close>, \<^verbatim>\<open>reopen\<close>, \<^verbatim>\<open>close\<close>.\<close>

definition dir_open :: "inode_ptr \<Rightarrow> dir option" where
  "dir_open inode =
    (case inode of None \<Rightarrow> None | Some sec \<Rightarrow> Some \<lparr>dir_inode = inode, dir_pos = 0\<rparr>)"

definition dir_open_root ::
  "'a filesys_state_scheme \<Rightarrow> error + (dir option \<times> 'a filesys_state_scheme)" where
  "dir_open_root s = ebind (inode_open s ROOT_DIR_SECTOR) (\<lambda>(inode, s1). Inr (dir_open inode, s1))"

definition dir_reopen ::
  "'a filesys_state_scheme \<Rightarrow> dir option \<Rightarrow> error + (dir option \<times> 'a filesys_state_scheme)" where
  "dir_reopen s dir =
    (case dir of
       None \<Rightarrow> Inl BadPointer
     | Some d \<Rightarrow> ebind (inode_reopen s (dir_inode d)) (\<lambda>(inode, s1). Inr (dir_open inode, s1)))"

definition dir_close ::
  "'a filesys_state_scheme \<Rightarrow> dir option \<Rightarrow> error + 'a filesys_state_scheme" where
  "dir_close s dir = (case dir of None \<Rightarrow> Inr s | Some d \<Rightarrow> inode_close s (dir_inode d))"

definition dir_get_inode :: "dir option \<Rightarrow> error + inode_ptr" where
  "dir_get_inode dir = (case dir of None \<Rightarrow> Inl BadPointer | Some d \<Rightarrow> Inr (dir_inode d))"

text \<open>The array of the directory behind a handle.\<close>

definition dir_entries ::
  "'a filesys_state_scheme \<Rightarrow> dir option \<Rightarrow> error + (block_sector_t \<times> dir_entry list)" where
  "dir_entries s dir =
    ebind (dir_get_inode dir) (\<lambda>inode.
    ebind (inode_deref s inode) (\<lambda>i. Inr (sector i, dir_data s (sector i))))"

text \<open>
  Modelled from the spec: \<^verbatim>\<open>lookup (dir, name, &inode_out)\<close>, a linear scan for
  \<open>in_use\<close> and a matching name, which opens the referenced inode.
\<close>

definition dir_lookup ::
  "'a filesys_state_scheme \<Rightarrow> dir option \<Rightarrow> string \<Rightarrow>
   error + (bool \<times> inode_ptr \<times> 'a filesys_state_scheme)" where
  "dir_lookup s dir nm =
    ebind (dir_entries s dir) (\<lambda>(sec, entries).
      case find (\<lambda>e. entry_in_use e \<and> entry_name e = nm) entries of
        None \<Rightarrow> Inr (False, None, s)
      | Some e \<Rightarrow>
          ebind (inode_open s (entry_inode_sector e)) (\<lambda>(inode, s1).
            Inr (inode \<noteq> None, inode, s1)))"

text \<open>
  Modelled from the spec: \<^verbatim>\<open>add (dir, name, inode_sector)\<close> finds a free slot (or grows
  the directory) and writes the entry; it fails if a live entry of the same name
  exists or if the length of the name exceeds \<^verbatim>\<open>NAME_MAX\<close>.
\<close>

fun free_slot :: "dir_entry list \<Rightarrow> dir_entry \<Rightarrow> dir_entry list" where
  "free_slot [] e = [e]"
| "free_slot (x # xs) e = (if entry_in_use x then x # free_slot xs e else e # xs)"

definition dir_add ::
  "'a filesys_state_scheme \<Rightarrow> dir option \<Rightarrow> string \<Rightarrow> block_sector_t \<Rightarrow>
   error + (bool \<times> 'a filesys_state_scheme)" where
  "dir_add s dir nm inode_sector =
    ebind (dir_entries s dir) (\<lambda>(sec, entries).
      if length nm > NAME_MAX then Inr (False, s)
      else if find (\<lambda>e. entry_in_use e \<and> entry_name e = nm) entries \<noteq> None
      then Inr (False, s)
      else
        Inr (True,
             s\<lparr>dir_data := (dir_data s)
                  (sec := free_slot entries
                     \<lparr>entry_name = nm, entry_inode_sector = inode_sector,
                      entry_in_use = True\<rparr>)\<rparr>))"

text \<open>
  Modelled from the spec: \<^verbatim>\<open>remove (dir, name)\<close> finds the entry, marks it
  \<open>in_use = false\<close> and marks the target inode removed; for the mark the inode is
  opened, and closed again afterwards.
\<close>

fun erase_entry :: "dir_entry list \<Rightarrow> string \<Rightarrow> dir_entry list" where
  "erase_entry [] nm = []"
| "erase_entry (x # xs) nm =
    (if entry_in_use x \<and> entry_name x = nm then x\<lparr>entry_in_use := False\<rparr> # xs
     else x # erase_entry xs nm)"

definition dir_remove ::
  "'a filesys_state_scheme \<Rightarrow> dir option \<Rightarrow> string \<Rightarrow>
   error + (bool \<times> 'a filesys_state_scheme)" where
  "dir_remove s dir nm =
    ebind (dir_entries s dir) (\<lambda>(sec, entries).
      case find (\<lambda>e. entry_in_use e \<and> entry_name e = nm) entries of
        None \<Rightarrow> Inr (False, s)
      | Some e \<Rightarrow>
          ebind (inode_open s (entry_inode_sector e)) (\<lambda>(inode, s1).
            if inode = None then Inr (False, s1)
            else
              (let s2 = s1\<lparr>dir_data := (dir_data s1)(sec := erase_entry entries nm)\<rparr>
               in ebind (inode_remove s2 inode) (\<lambda>s3.
                  ebind (inode_close s3 inode) (\<lambda>s4. Inr (True, s4))))))"

text \<open>
  Modelled from the spec: \<^verbatim>\<open>readdir (dir, &name_out)\<close> returns the name of the next
  \<open>in_use\<close> entry, advancing the directory's own cursor, and returns false at the end.
  The result is the flag, the name and the handle with its cursor.
\<close>

fun next_in_use :: "dir_entry list \<Rightarrow> nat \<Rightarrow> (string \<times> nat) option" where
  "next_in_use [] p = None"
| "next_in_use (x # xs) p =
    (if entry_in_use x then Some (entry_name x, Suc p) else next_in_use xs (Suc p))"

definition dir_readdir ::
  "'a filesys_state_scheme \<Rightarrow> dir option \<Rightarrow> error + (bool \<times> string \<times> dir option)" where
  "dir_readdir s dir =
    ebind (dir_entries s dir) (\<lambda>(sec, entries).
      case dir of
        None \<Rightarrow> Inl BadPointer
      | Some d \<Rightarrow>
          (case next_in_use (drop (dir_pos d) entries) (dir_pos d) of
             None \<Rightarrow> Inr (False, [], Some (d\<lparr>dir_pos := max (dir_pos d) (length entries)\<rparr>))
           | Some (nm, p) \<Rightarrow> Inr (True, nm, Some (d\<lparr>dir_pos := p\<rparr>))))"

section \<open>File-system operations\<close>

lemma strtok_r_shorter:
  assumes "strtok_r s delimiters = (token, save_ptr)"
  shows "length save_ptr \<le> length s \<and> (token \<noteq> None \<longrightarrow> length save_ptr < length s)"
proof -
  define s1 where "s1 = dropWhile (\<lambda>c. c \<in> set delimiters) s"
  have l1: "length s1 \<le> length s" by (simp add: s1_def length_dropWhile_le)
  show ?thesis
  proof (cases "s1 = []")
    case True
    with assms show ?thesis by (simp add: strtok_r_def s1_def [symmetric])
  next
    case False
    then have "hd s1 \<notin> set delimiters"
      unfolding s1_def using hd_dropWhile by blast
    with False have "takeWhile (\<lambda>c. c \<notin> set delimiters) s1 \<noteq> []"
      by (cases s1) auto
    then have ne: "length (takeWhile (\<lambda>c. c \<notin> set delimiters) s1) \<noteq> 0" by simp
    have "length (takeWhile (\<lambda>c. c \<notin> set delimiters) s1) +
        length (dropWhile (\<lambda>c. c \<notin> set delimiters) s1) = length s1"
      by (metis length_append takeWhile_dropWhile_id)
    with ne have "length (dropWhile (\<lambda>c. c \<notin> set delimiters) s1) < length s1"
      by linarith
    with assms False l1 show ?thesis
      by (auto simp: strtok_r_def s1_def [symmetric])
  qed
qed

lemma strtok_r_measure:
  "(case strtok_r s delimiters of
      (token, save_ptr) \<Rightarrow> length save_ptr + (case token of None \<Rightarrow> 0 | Some t \<Rightarrow> 1))
    < Suc (length s)"
proof (cases "strtok_r s delimiters")
  case (Pair token save_ptr)
  from strtok_r_shorter [OF Pair] show ?thesis
    unfolding Pair by (cases token) auto
qed

text \<open>
  The \<^verbatim>\<open>while (token != NULL && nextToken != NULL)\<close> loop of \<^verbatim>\<open>parse_path\<close>. The result
  is \<open>None\<close> when the function returns \<^verbatim>\<open>NULL\<close> from inside the loop, and otherwise
  the directory and the token the loop ends with.
\<close>

function parse_path_loop ::
  "'a filesys_state_scheme \<Rightarrow> dir option \<Rightarrow> string option \<Rightarrow> string option \<Rightarrow> string \<Rightarrow>
   error + ((dir option \<times> string option) option \<times> 'a filesys_state_scheme)" where
  "parse_path_loop s dir token nextToken savePtr =
    (case (token, nextToken) of
       (Some tok, Some next_tok) \<Rightarrow>
         ebind (dir_lookup s dir tok) (\<lambda>(success, inode, s1).
         ebind (if success then inode_is_dir s1 inode else Inr (False, s1)) (\<lambda>(isdir, s2).
           if \<not> success \<or> \<not> isdir then Inr (None, s2)
           else
             (let nextDir = dir_open inode
              in ebind (dir_close s2 dir) (\<lambda>s3.
                   case strtok_r savePtr ''/'' of
                     (nextToken', savePtr') \<Rightarrow>
                       parse_path_loop s3 nextDir nextToken nextToken' savePtr'))))
     | _ \<Rightarrow> Inr (Some (dir, token), s))"
  by pat_completeness auto
termination
  apply (relation "measure (\<lambda>(s, dir, token, nextToken, savePtr).
      length savePtr + (case nextToken of None \<Rightarrow> 0 | Some t \<Rightarrow> 1))")
   apply simp
  subgoal for s dir token nextToken savePtr
    using strtok_r_measure [of savePtr "''/''"] by (auto split: prod.splits)
  done

declare parse_path_loop.simps [simp del]

text \<open>
  \<^verbatim>\<open>parse_path (path_name, file_name)\<close>: a pointer to a string is \<open>None\<close> for \<^verbatim>\<open>NULL\<close>.
  The result is the directory, the buffer \<^verbatim>\<open>file_name\<close> and the state.
\<close>

definition parse_path ::
  "'a filesys_state_scheme \<Rightarrow> string option \<Rightarrow> string option \<Rightarrow>
   error + (dir option \<times> string option \<times> 'a filesys_state_scheme)" where
  "parse_path s path_name file_name =
    (case (path_name, file_name) of
       (Some path, Some old_name) \<Rightarrow>
         if length path = 0 then Inr (None, file_name, s)
         else
           ebind (if hd path = CHR ''/'' then dir_open_root s else dir_reopen s (cur_dir s))
             (\<lambda>(dir, s1).
               case strtok_r path ''/'' of
                 (token, savePtr) \<Rightarrow>
                   (case strtok_r savePtr ''/'' of
                      (nextToken, savePtr') \<Rightarrow>
                        ebind (parse_path_loop s1 dir token nextToken savePtr') (\<lambda>(r, s2).
                          case r of
                            None \<Rightarrow> Inr (None, file_name, s2)
                          | Some (dir', token') \<Rightarrow>
                              (let token'' = (case token' of None \<Rightarrow> ''.'' | Some t \<Rightarrow> t)
                               in case strlcpy token'' (NAME_MAX + 1) of
                                    (copied, size') \<Rightarrow>
                                      if size' > NAME_MAX + 1 then Inr (None, Some copied, s2)
                                      else Inr (dir', Some copied, s2)))))
     | _ \<Rightarrow> Inr (None, file_name, s))"

section \<open>File-system operations\<close>

text \<open>
  \<^verbatim>\<open>filesys_create (name, initial_size)\<close>. The copy of the name is \<^verbatim>\<open>strlcpy\<close> into a
  buffer of \<open>strlen (name) + 1\<close> bytes. The local array \<^verbatim>\<open>file_name\<close> is passed to
  \<^verbatim>\<open>parse_path\<close> uninitialised and is read only after \<^verbatim>\<open>parse_path\<close> has filled it; the
  model starts it empty. \<^verbatim>\<open>inode_sector\<close> starts as 0 and stays 0 when
  \<^verbatim>\<open>free_map_allocate\<close> fails. The chain of \<^verbatim>\<open>&&\<close> stops at the first call that returns
  false.
\<close>

definition filesys_create ::
  "'a filesys_state_scheme \<Rightarrow> string \<Rightarrow> off_t \<Rightarrow> error + (bool \<times> 'a filesys_state_scheme)" where
  "filesys_create s name initial_size =
    (case malloc s of
       (False, s1) \<Rightarrow> Inr (False, s1)
     | (True, s1) \<Rightarrow>
         (case strlcpy name (length name + 1) of
            (cp_name, n) \<Rightarrow>
              ebind (parse_path s1 (Some cp_name) (Some [])) (\<lambda>(dir, file_name, s2).
                if dir = None then Inr (False, s2)
                else
                  ebind (dir_get_inode dir) (\<lambda>dinode.
                  ebind (inode_is_removed s2 dinode) (\<lambda>rem.
                    if rem then Inr (False, s2)
                    else
                      (case file_name of
                         None \<Rightarrow> Inl BadPointer
                       | Some nm \<Rightarrow>
                           (case free_map_allocate s2 1 of
                              (r, s3) \<Rightarrow>
                                (let inode_sector = (case r of None \<Rightarrow> 0 | Some sec \<Rightarrow> sec)
                                 in ebind (if r \<noteq> None
                                           then inode_create s3 inode_sector initial_size 0
                                           else Inr (False, s3)) (\<lambda>(created, s4).
                                    ebind (if created then dir_add s4 dir nm inode_sector
                                           else Inr (False, s4)) (\<lambda>(success, s5).
                                    ebind (dir_close
                                             (if \<not> success \<and> inode_sector \<noteq> 0
                                              then free_map_release s5 inode_sector 1 else s5)
                                             dir) (\<lambda>s6.
                                      Inr (success, s6))))))))))))"

text \<open>
  The loop \<^verbatim>\<open>while (dir_readdir (child_dir, dir_name))\<close> of \<^verbatim>\<open>filesys_remove\<close>; the result
  is \<^verbatim>\<open>is_deletable\<close> and the handle with its cursor. What is left to read of a
  directory bounds the loop.
\<close>

definition readdir_left :: "'a filesys_state_scheme \<Rightarrow> dir option \<Rightarrow> nat" where
  "readdir_left s dir =
    (case dir of
       None \<Rightarrow> 0
     | Some d \<Rightarrow>
         (case dir_entries s dir of
            Inl e \<Rightarrow> 0
          | Inr (sec, entries) \<Rightarrow> length entries - dir_pos d))"

lemma next_in_use_advances:
  "next_in_use xs p = Some (nm, p') \<Longrightarrow> p < p' \<and> p' \<le> p + length xs"
proof (induction xs arbitrary: p)
  case Nil
  then show ?case by simp
next
  case (Cons x xs)
  show ?case
  proof (cases "entry_in_use x")
    case True
    with Cons.prems show ?thesis by simp
  next
    case False
    with Cons.prems have "next_in_use xs (Suc p) = Some (nm, p')" by simp
    from Cons.IH [OF this] show ?thesis by simp
  qed
qed

lemma dir_readdir_advances:
  assumes "dir_readdir s dir = Inr (True, nm, dir')"
  shows "readdir_left s dir' < readdir_left s dir"
proof -
  from assms obtain d sec entries p where
    dir: "dir = Some d" and ent: "dir_entries s dir = Inr (sec, entries)" and
    nxt: "next_in_use (drop (dir_pos d) entries) (dir_pos d) = Some (nm, p)" and
    dir': "dir' = Some (d\<lparr>dir_pos := p\<rparr>)"
    by (auto simp: dir_readdir_def elim!: ebind_InrE split: option.splits)
  from next_in_use_advances [OF nxt]
  have "dir_pos d < p" and "p \<le> dir_pos d + length (drop (dir_pos d) entries)" by simp_all
  moreover from nxt have "drop (dir_pos d) entries \<noteq> []" by auto
  ultimately have "dir_pos d < p" and "p \<le> length entries" by simp_all
  moreover from ent dir dir' have "dir_entries s dir' = Inr (sec, entries)"
    by (simp add: dir_entries_def dir_get_inode_def)
  ultimately show ?thesis
    using ent dir dir' by (simp add: readdir_left_def)
qed

function readdir_loop ::
  "'a filesys_state_scheme \<Rightarrow> dir option \<Rightarrow> error + (bool \<times> dir option)" where
  "readdir_loop s child_dir =
    ebind (dir_readdir s child_dir) (\<lambda>(more, dir_name, child_dir').
      if more then
        (if dir_name = ''.'' \<or> dir_name = ''..'' then readdir_loop s child_dir'
         else Inr (False, child_dir'))
      else Inr (True, child_dir'))"
  by pat_completeness auto
termination
  apply (relation "measure (\<lambda>(s, child_dir). readdir_left s child_dir)")
   apply simp
  subgoal for s child_dir x more rest dir_name child_dir'
    using dir_readdir_advances [of s child_dir dir_name child_dir'] by simp
  done

declare readdir_loop.simps [simp del]

text \<open>
  \<^verbatim>\<open>filesys_remove (name)\<close>. \<^verbatim>\<open>inode\<close> starts as \<^verbatim>\<open>NULL\<close> and is what \<^verbatim>\<open>dir_lookup\<close> stores;
  the flag \<^verbatim>\<open>dir_lookup\<close> returns is not used. \<^verbatim>\<open>inode_is_dir\<close> is called only for a
  non-null \<^verbatim>\<open>inode\<close>.
\<close>

definition filesys_remove ::
  "'a filesys_state_scheme \<Rightarrow> string \<Rightarrow> error + (bool \<times> 'a filesys_state_scheme)" where
  "filesys_remove s name =
    (case malloc s of
       (False, s1) \<Rightarrow> Inr (False, s1)
     | (True, s1) \<Rightarrow>
         (case strlcpy name (length name + 1) of
            (cp_name, n) \<Rightarrow>
              ebind (parse_path s1 (Some cp_name) (Some [])) (\<lambda>(dir, file_name, s2).
                if dir = None then Inr (False, s2)
                else
                  ebind (dir_get_inode dir) (\<lambda>dinode.
                  ebind (inode_is_removed s2 dinode) (\<lambda>rem.
                    if rem then Inr (False, s2)
                    else
                      (case file_name of
                         None \<Rightarrow> Inl BadPointer
                       | Some nm \<Rightarrow>
                           ebind (dir_lookup s2 dir nm) (\<lambda>(found, inode, s3).
                           ebind (if inode \<noteq> None then inode_is_dir s3 inode
                                  else Inr (False, s3)) (\<lambda>(isdir, s4).
                           ebind
                             (if inode \<noteq> None \<and> isdir then
                                ebind (inode_reopen s4 inode) (\<lambda>(cp_inode, s5).
                                ebind (readdir_loop s5 (dir_open cp_inode))
                                  (\<lambda>(is_deletable, child_dir).
                                ebind (dir_close s5 child_dir) (\<lambda>s6.
                                  if is_deletable then dir_remove s6 dir nm
                                  else Inr (False, s6))))
                              else dir_remove s4 dir nm) (\<lambda>(success, s7).
                           ebind (inode_close s7 inode) (\<lambda>s8.
                           ebind (dir_close s8 dir) (\<lambda>s9.
                             Inr (success, s9))))))))))))"

section \<open>A file system with directories\<close>

text \<open>
  A device of eight sectors behind a cache of two empty slots. Sector 1 holds the
  inode of the root directory, sector 2 the inode of the directory \<open>a\<close>, sector 3 the
  inode of the empty file \<open>f\<close>, and sector 4 the inode of the directory \<open>e\<close>. The root
  directory has the entries \<open>.\<close>, \<open>..\<close>, \<open>a\<close> and \<open>e\<close>, the directory \<open>a\<close> has \<open>.\<close>, \<open>..\<close> and
  \<open>f\<close>, and the directory \<open>e\<close> has \<open>.\<close> and \<open>..\<close> only. Sectors 0 to 4 are in use. The
  calling thread has the root directory as its current directory, which is the only
  open inode. The coming allocations of the kernel heap are a parameter.
\<close>

definition dir_inode_disk :: inode_disk where
  "dir_inode_disk =
    \<lparr>direct_map_table = replicate 123 0,
     indirect_block_sec = 0, double_indirect_block_sec = 0, length_field = 0,
     magic = INODE_MAGIC, is_dir = 1\<rparr>"

definition file_inode_disk :: inode_disk where
  "file_inode_disk =
    \<lparr>direct_map_table = replicate 123 0,
     indirect_block_sec = 0, double_indirect_block_sec = 0, length_field = 0,
     magic = INODE_MAGIC, is_dir = 0\<rparr>"

definition dir_fs_entries :: "block_sector_t \<Rightarrow> dir_entry list" where
  "dir_fs_entries sec =
    (if sec = 1 then
       [\<lparr>entry_name = ''.'', entry_inode_sector = 1, entry_in_use = True\<rparr>,
        \<lparr>entry_name = ''..'', entry_inode_sector = 1, entry_in_use = True\<rparr>,
        \<lparr>entry_name = ''a'', entry_inode_sector = 2, entry_in_use = True\<rparr>,
        \<lparr>entry_name = ''e'', entry_inode_sector = 4, entry_in_use = True\<rparr>]
     else if sec = 2 then
       [\<lparr>entry_name = ''.'', entry_inode_sector = 2, entry_in_use = True\<rparr>,
        \<lparr>entry_name = ''..'', entry_inode_sector = 1, entry_in_use = True\<rparr>,
        \<lparr>entry_name = ''f'', entry_inode_sector = 3, entry_in_use = True\<rparr>]
     else if sec = 4 then
       [\<lparr>entry_name = ''.'', entry_inode_sector = 4, entry_in_use = True\<rparr>,
        \<lparr>entry_name = ''..'', entry_inode_sector = 1, entry_in_use = True\<rparr>]
     else [])"

definition dir_fs :: "bool list \<Rightarrow> filesys_state" where
  "dir_fs script =
    \<lparr>buffer_head = [empty_head, empty_head], clock_hand = 0,
     fs_device =
       [fresh_block, inode_disk_bytes dir_inode_disk, inode_disk_bytes dir_inode_disk,
        inode_disk_bytes file_inode_disk, inode_disk_bytes dir_inode_disk,
        fresh_block, fresh_block, fresh_block],
     malloc_script = script,
     free_map = [True, True, True, True, True, False, False, False],
     open_inodes =
       [\<lparr>sector = 1, open_cnt = 1, removed = False, deny_write_cnt = 0,
         extend_lock = False\<rparr>],
     dir_data = dir_fs_entries,
     cur_dir = Some \<lparr>dir_inode = Some 1, dir_pos = 0\<rparr>\<rparr>"

section \<open>What the operations leave alone\<close>

text \<open>
  The inode behind a directory handle, \<^verbatim>\<open>NULL\<close> for no handle.
\<close>

definition handle_inode :: "dir option \<Rightarrow> inode_ptr" where
  "handle_inode dir = (case dir of None \<Rightarrow> None | Some d \<Rightarrow> dir_inode d)"

text \<open>
  The open counts cover the handles \<open>hs\<close> that an operation holds: every open inode
  has been opened at least once, and an inode marked removed once more than there
  are handles on it among \<open>hs\<close>, so that closing these handles does not close it for
  the last time. With no handle held this says that no open count is below 1, which
  \<^verbatim>\<open>inode_open\<close>, \<^verbatim>\<open>inode_reopen\<close> and \<^verbatim>\<open>inode_close\<close> keep.
\<close>

definition handles_counted :: "'a fs_state_scheme \<Rightarrow> inode_ptr list \<Rightarrow> bool" where
  "handles_counted s hs =
    list_all (\<lambda>i. (if removed i then 1 + int (count_list hs (Some (sector i))) else 1)
                    \<le> open_cnt i) (open_inodes s)"

text \<open>
  The part of the state that the buffer cache, the allocator and the growth of a
  file do not change: the open inodes, the size of the free map, and the fields a
  layer above adds to the state.
\<close>

definition fs_shape :: "'a fs_state_scheme \<Rightarrow> inode list \<times> nat \<times> 'a" where
  "fs_shape s = (open_inodes s, length (free_map s), fs_state.more s)"

text \<open>
  Between two free maps of one size no sector in use has been released.
\<close>

definition used_kept :: "bool list \<Rightarrow> bool list \<Rightarrow> bool" where
  "used_kept fm fm' = list_all2 (\<lambda>before after. before \<longrightarrow> after) fm fm'"

section \<open>Properties\<close>

lemma sdiv_nonneg_eq_div: "0 \<le> a \<Longrightarrow> 0 < b \<Longrightarrow> (a :: int) sdiv b = a div b"
  by (simp add: signed_divide_int_def sgn_if)

lemma smod_nonneg_eq_mod: "0 \<le> a \<Longrightarrow> 0 < b \<Longrightarrow> (a :: int) smod b = a mod b"
  by (simp add: signed_modulo_int_def sgn_if)

text \<open>
  Claim C1. For a non-negative byte offset \<open>pos\<close>, with \<open>s = pos div 512\<close>:
  \<^verbatim>\<open>locate_byte\<close> answers direct with \<open>index1 = s\<close> when \<open>s < 123\<close>; indirect with
  \<open>index1 = s - 123\<close> when \<open>123 \<le> s < 123 + 128\<close>; double-indirect with
  \<open>index1 = (s - 123 - 128) div 128\<close> and \<open>index2 = (s - 123 - 128) mod 128\<close> when
  \<open>123 + 128 \<le> s < 123 + 128 * (1 + 128)\<close>; and out of range otherwise.
\<close>

theorem locate_byte_classifies:
  assumes "0 \<le> pos"
  shows "let s = pos div 512; r = locate_byte pos loc in
    (s < 123 \<longrightarrow> directness r = NORMAL_DIRECT \<and> index1 r = s) \<and>
    (123 \<le> s \<and> s < 123 + 128 \<longrightarrow> directness r = INDIRECT \<and> index1 r = s - 123) \<and>
    (123 + 128 \<le> s \<and> s < 123 + 128 * (1 + 128) \<longrightarrow>
       directness r = DOUBLE_INDIRECT \<and>
       index1 r = (s - 123 - 128) div 128 \<and> index2 r = (s - 123 - 128) mod 128) \<and>
    (123 + 128 * (1 + 128) \<le> s \<longrightarrow> directness r = OUT_LIMIT)"
proof -
  have s: "pos sdiv 512 = pos div 512"
    using assms by (simp add: sdiv_nonneg_eq_div)
  have "0 \<le> pos div 512"
    using assms by simp
  then show ?thesis
    by (auto simp: locate_byte_def Let_def s BLOCK_SECTOR_SIZE_def DIRECT_BLOCK_ENTRIES_def
        INDIRECT_BLOCK_ENTRIES_def sdiv_nonneg_eq_div smod_nonneg_eq_mod)
qed

theorem locate_byte_classifies_witness:
  "(0::int) \<le> 129024 \<and>
   directness (locate_byte 129024 \<lparr>directness = OUT_LIMIT, index1 = 0, index2 = 0\<rparr>)
     = DOUBLE_INDIRECT \<and>
   index1 (locate_byte 129024 \<lparr>directness = OUT_LIMIT, index1 = 0, index2 = 0\<rparr>) = 0 \<and>
   index2 (locate_byte 129024 \<lparr>directness = OUT_LIMIT, index1 = 0, index2 = 0\<rparr>) = 1"
  using locate_byte_classifies [of 129024 "\<lparr>directness = OUT_LIMIT, index1 = 0, index2 = 0\<rparr>"]
  by (simp add: Let_def)

subsection \<open>Buffer cache\<close>


lemma bc_lookup_from_None:
  "bc_lookup_from idx heads sec = None \<longleftrightarrow> (\<forall>h \<in> set heads. buffer_head.sector h \<noteq> sec)"
  by (induction heads arbitrary: idx) auto

lemma bc_lookup_from_Some:
  "bc_lookup_from idx heads sec = Some i \<Longrightarrow>
   \<exists>k. i = idx + k \<and> k < length heads \<and> buffer_head.sector (heads ! k) = sec \<and>
       (\<forall>j < k. buffer_head.sector (heads ! j) \<noteq> sec)"
proof (induction heads arbitrary: idx)
  case Nil
  then show ?case by simp
next
  case (Cons h hs)
  show ?case
  proof (cases "buffer_head.sector h = sec")
    case True
    with Cons.prems have "i = idx + 0" by simp
    with True show ?thesis by (intro exI [of _ 0]) simp
  next
    case False
    with Cons.prems have r: "bc_lookup_from (Suc idx) hs sec = Some i" by simp
    from Cons.IH [OF r] obtain k where k: "i = Suc idx + k" "k < length hs"
      "buffer_head.sector (hs ! k) = sec" "\<forall>j < k. buffer_head.sector (hs ! j) \<noteq> sec" by blast
    have "\<forall>j < Suc k. buffer_head.sector ((h # hs) ! j) \<noteq> sec"
      using False k(4) by (simp add: nth_Cons split: nat.splits)
    with k show ?thesis by (intro exI [of _ "Suc k"]) simp
  qed
qed

lemma bc_lookup_from_first:
  "i < length heads \<Longrightarrow> buffer_head.sector (heads ! i) = sec \<Longrightarrow> (\<forall>j < i. buffer_head.sector (heads ! j) \<noteq> sec) \<Longrightarrow>
   bc_lookup_from idx heads sec = Some (idx + i)"
proof (induction heads arbitrary: idx i)
  case Nil
  then show ?case by simp
next
  case (Cons h hs)
  show ?case
  proof (cases i)
    case 0
    with Cons.prems show ?thesis by simp
  next
    case (Suc i')
    with Cons.prems have "buffer_head.sector h \<noteq> sec" by auto
    moreover have "bc_lookup_from (Suc idx) hs sec = Some (Suc idx + i')"
      using Cons.prems Suc by (intro Cons.IH) auto
    ultimately show ?thesis using Suc by simp
  qed
qed

lemma clock_sweep_frame:
  "clock_sweep heads hand = Inr (idx, heads', hand') \<Longrightarrow>
   idx < length heads \<and> length heads' = length heads \<and>
   (hand < length heads \<longrightarrow> hand' < length heads) \<and>
   (\<forall>j < length heads. buffer_head.sector (heads' ! j) = buffer_head.sector (heads ! j) \<and>
      data (heads' ! j) = data (heads ! j) \<and> dirty (heads' ! j) = dirty (heads ! j) \<and>
      valid (heads' ! j) = valid (heads ! j))"
proof (induction heads hand arbitrary: idx heads' hand' rule: clock_sweep.induct)
  case (1 heads hand)
  define i where "i = (if hand = length heads then 0 else hand)"
  define h where "h = (if Suc hand = length heads then 0 else Suc hand)"
  have eq: "clock_sweep heads hand =
    (if i < length heads then
       if clock_bit (heads ! i)
       then clock_sweep (heads[i := (heads ! i)\<lparr>clock_bit := False\<rparr>]) h
       else Inr (i, heads[i := (heads ! i)\<lparr>clock_bit := True\<rparr>], h)
     else Inl OutOfBounds)"
    by (subst clock_sweep.simps) (simp add: Let_def i_def h_def)
  from "1.prems" eq have il: "i < length heads" by (auto split: if_splits)
  have hl: "hand < length heads \<Longrightarrow> h < length heads" by (auto simp: h_def)
  show ?case
  proof (cases "clock_bit (heads ! i)")
    case True
    with "1.prems" eq il
    have r: "clock_sweep (heads[i := (heads ! i)\<lparr>clock_bit := False\<rparr>]) h = Inr (idx, heads', hand')"
      by simp
    have "idx < length (heads[i := (heads ! i)\<lparr>clock_bit := False\<rparr>]) \<and>
      length heads' = length (heads[i := (heads ! i)\<lparr>clock_bit := False\<rparr>]) \<and>
      (h < length (heads[i := (heads ! i)\<lparr>clock_bit := False\<rparr>]) \<longrightarrow>
        hand' < length (heads[i := (heads ! i)\<lparr>clock_bit := False\<rparr>])) \<and>
      (\<forall>j < length (heads[i := (heads ! i)\<lparr>clock_bit := False\<rparr>]).
        buffer_head.sector (heads' ! j) = buffer_head.sector (heads[i := (heads ! i)\<lparr>clock_bit := False\<rparr>] ! j) \<and>
        data (heads' ! j) = data (heads[i := (heads ! i)\<lparr>clock_bit := False\<rparr>] ! j) \<and>
        dirty (heads' ! j) = dirty (heads[i := (heads ! i)\<lparr>clock_bit := False\<rparr>] ! j) \<and>
        valid (heads' ! j) = valid (heads[i := (heads ! i)\<lparr>clock_bit := False\<rparr>] ! j))"
      using "1.IH" [OF i_def h_def il True r] .
    then show ?thesis using hl il
      by (simp add: nth_list_update)
  next
    case False
    with "1.prems" eq il hl show ?thesis
      by (auto simp: nth_list_update split: if_splits)
  qed
qed

lemma clock_sweep_returns:
  "hand < length heads \<Longrightarrow> \<exists>r. clock_sweep heads hand = Inr r"
proof (induction heads hand rule: clock_sweep.induct)
  case (1 heads hand)
  define i where "i = (if hand = length heads then 0 else hand)"
  define h where "h = (if Suc hand = length heads then 0 else Suc hand)"
  have eq: "clock_sweep heads hand =
    (if i < length heads then
       if clock_bit (heads ! i)
       then clock_sweep (heads[i := (heads ! i)\<lparr>clock_bit := False\<rparr>]) h
       else Inr (i, heads[i := (heads ! i)\<lparr>clock_bit := True\<rparr>], h)
     else Inl OutOfBounds)"
    by (subst clock_sweep.simps) (simp add: Let_def i_def h_def)
  from "1.prems" have il: "i < length heads" by (simp add: i_def)
  from "1.prems" have hl: "h < length (heads[i := (heads ! i)\<lparr>clock_bit := False\<rparr>])"
    by (auto simp: h_def)
  show ?case
  proof (cases "clock_bit (heads ! i)")
    case True
    from "1.IH" [OF i_def h_def il True hl] show ?thesis
      using eq il True by simp
  next
    case False
    then show ?thesis using eq il by simp
  qed
qed


lemma bc_flush_entry_spec:
  assumes "idx < length (buffer_head s)"
    and "unat (buffer_head.sector (buffer_head s ! idx)) < length (fs_device s)"
    and "nat BLOCK_SECTOR_SIZE \<le> length (data (buffer_head s ! idx))"
  shows "bc_flush_entry s idx =
    Inr (s\<lparr>fs_device := (fs_device s)[unat (buffer_head.sector (buffer_head s ! idx)) :=
                take (nat BLOCK_SECTOR_SIZE) (data (buffer_head s ! idx))],
           buffer_head := (buffer_head s)[idx := (buffer_head s ! idx)\<lparr>dirty := False\<rparr>]\<rparr>)"
  using assms by (simp add: bc_flush_entry_def block_write_def Let_def)

lemma bc_select_victim_spec:
  assumes hand: "clock_hand s < length (buffer_head s)"
    and flushable: "\<forall>h \<in> set (buffer_head s). dirty h \<longrightarrow>
          unat (buffer_head.sector h) < length (fs_device s) \<and> nat BLOCK_SECTOR_SIZE \<le> length (data h)"
  shows "\<exists>idx s'. bc_select_victim s = Inr (Some idx, s') \<and>
    idx < length (buffer_head s) \<and> length (buffer_head s') = length (buffer_head s) \<and>
    clock_hand s' < length (buffer_head s) \<and>
    buffer_head.sector (buffer_head s' ! idx) = - 1 \<and> \<not> dirty (buffer_head s' ! idx) \<and>
    data (buffer_head s' ! idx) = data (buffer_head s ! idx) \<and>
    (\<forall>j < length (buffer_head s). j \<noteq> idx \<longrightarrow>
       buffer_head.sector (buffer_head s' ! j) = buffer_head.sector (buffer_head s ! j) \<and>
       data (buffer_head s' ! j) = data (buffer_head s ! j) \<and>
       dirty (buffer_head s' ! j) = dirty (buffer_head s ! j)) \<and>
    fs_device s' =
      (if dirty (buffer_head s ! idx)
       then (fs_device s)[unat (buffer_head.sector (buffer_head s ! idx)) :=
              take (nat BLOCK_SECTOR_SIZE) (data (buffer_head s ! idx))]
       else fs_device s) \<and>
    bc_state.more s' = bc_state.more s"
proof -
  from clock_sweep_returns [OF hand] obtain idx heads h' where
    sw: "clock_sweep (buffer_head s) (clock_hand s) = Inr (idx, heads, h')"
    by (metis prod_cases3)
  note fr = clock_sweep_frame [OF sw]
  from fr have idx: "idx < length (buffer_head s)" and len: "length heads = length (buffer_head s)"
    and h': "h' < length (buffer_head s)" using hand by auto
  from fr idx have same: "buffer_head.sector (heads ! idx) = buffer_head.sector (buffer_head s ! idx)"
    "data (heads ! idx) = data (buffer_head s ! idx)"
    "dirty (heads ! idx) = dirty (buffer_head s ! idx)" by auto
  define s1 where "s1 = s\<lparr>buffer_head := heads, clock_hand := h'\<rparr>"
  show ?thesis
  proof (cases "dirty (buffer_head s ! idx)")
    case True
    with flushable idx have fl: "unat (buffer_head.sector (buffer_head s ! idx)) < length (fs_device s)"
      "nat BLOCK_SECTOR_SIZE \<le> length (data (buffer_head s ! idx))"
      by (auto dest: nth_mem)
    have "bc_flush_entry s1 idx =
      Inr (s1\<lparr>fs_device := (fs_device s1)[unat (buffer_head.sector (buffer_head s1 ! idx)) :=
                take (nat BLOCK_SECTOR_SIZE) (data (buffer_head s1 ! idx))],
           buffer_head := (buffer_head s1)[idx := (buffer_head s1 ! idx)\<lparr>dirty := False\<rparr>]\<rparr>)"
      by (rule bc_flush_entry_spec) (use idx len fl same in \<open>simp_all add: s1_def\<close>)
    then show ?thesis
      using sw True idx len h' same fr
      by (simp add: bc_select_victim_def s1_def Let_def nth_list_update)
  next
    case False
    then show ?thesis
      using sw idx len h' same fr
      by (simp add: bc_select_victim_def s1_def Let_def nth_list_update)
  qed
qed

lemma splice_nth:
  "a + m \<le> length dst \<Longrightarrow> b + m \<le> length src \<Longrightarrow> k < length dst \<Longrightarrow>
   (take a dst @ take m (drop b src) @ drop (a + m) dst) ! k =
     (if k < a then dst ! k else if k < a + m then src ! (b + (k - a)) else dst ! k)"
proof -
  assume a: "a + m \<le> length dst" "b + m \<le> length src" "k < length dst"
  have l1: "min (length dst) a = a" using a by simp
  have l2: "min (length src - b) m = m" using a by simp
  have l3: "\<not> k < a + m \<Longrightarrow> a + m + (k - a - m) = k" by simp
  show ?thesis using a by (auto simp: nth_append l1 l2 l3)
qed

lemma memcpy_Inr:
  assumes "memcpy dst dst_ofs src src_ofs n = Inr r"
  shows "\<exists>a b m. dst_ofs = int a \<and> src_ofs = int b \<and> n = int m \<and>
    a + m \<le> length dst \<and> b + m \<le> length src \<and>
    r = take a dst @ take m (drop b src) @ drop (a + m) dst"
proof -
  from assms have c: "0 \<le> dst_ofs" "0 \<le> src_ofs" "0 \<le> n"
    "dst_ofs + n \<le> int (length dst)" "src_ofs + n \<le> int (length src)"
    and r: "r = take (nat dst_ofs) dst @ take (nat n) (drop (nat src_ofs) src) @
               drop (nat (dst_ofs + n)) dst"
    by (auto simp: memcpy_def split: if_splits)
  from c have "nat (dst_ofs + n) = nat dst_ofs + nat n" by (simp add: nat_add_distrib)
  with c r show ?thesis
    by (intro exI [of _ "nat dst_ofs"] exI [of _ "nat src_ofs"] exI [of _ "nat n"]) auto
qed

lemma memcpy_length:
  "memcpy dst dst_ofs src src_ofs n = Inr r \<Longrightarrow> length r = length dst"
  by (drule memcpy_Inr) auto

lemma memcpy_outside:
  "memcpy dst dst_ofs src src_ofs n = Inr r \<Longrightarrow> k < length dst \<Longrightarrow>
   int k < dst_ofs \<or> dst_ofs + n \<le> int k \<Longrightarrow> r ! k = dst ! k"
  by (drule memcpy_Inr) (auto simp: splice_nth)

lemma memcpy_inside:
  "memcpy dst dst_ofs src src_ofs n = Inr r \<Longrightarrow> dst_ofs \<le> int k \<Longrightarrow> int k < dst_ofs + n \<Longrightarrow>
   r ! k = src ! (nat src_ofs + (k - nat dst_ofs))"
  by (drule memcpy_Inr) (auto simp: splice_nth)

text \<open>
  Claim C7. A \<^verbatim>\<open>bc_write\<close> of fewer than \<^verbatim>\<open>BLOCK_SECTOR_SIZE\<close> bytes to a sector that
  \<^verbatim>\<open>bc_lookup\<close> does not find returns success, after which the sector is resident, and
  every byte of its slot outside \<open>[sector_ofs, sector_ofs + chunk_size)\<close> is the byte
  the device held for the sector before the call (the bytes inside are the caller's).
  The hypotheses keep the call inside its buffers and the device: the clock hand is a
  slot index, a dirty slot can be written back, the sector is on the device.
\<close>

theorem bc_write_miss_keeps_rest_of_sector:
  assumes miss: "bc_lookup s sector_idx = None"
    and partial: "chunk_size < BLOCK_SECTOR_SIZE"
    and hand: "clock_hand s < BUFFER_CACHE_ENTRY_NB s"
    and flushable: "\<forall>h \<in> set (buffer_head s). dirty h \<longrightarrow>
          unat (buffer_head.sector h) < length (fs_device s) \<and> nat BLOCK_SECTOR_SIZE \<le> length (data h)"
    and on_disk: "block_read (fs_device s) sector_idx = Inr old"
    and old_len: "length old = nat BLOCK_SECTOR_SIZE"
    and range: "0 \<le> sector_ofs" "0 \<le> chunk_size" "sector_ofs + chunk_size \<le> BLOCK_SECTOR_SIZE"
    and src: "0 \<le> buffer_ofs" "buffer_ofs + chunk_size \<le> int (length buffer)"
  shows "\<exists>s' i. bc_write s sector_idx buffer buffer_ofs chunk_size sector_ofs = Inr (True, s') \<and>
    bc_lookup s' sector_idx = Some i \<and>
    length (data (buffer_head s' ! i)) = nat BLOCK_SECTOR_SIZE \<and>
    (\<forall>k < nat BLOCK_SECTOR_SIZE.
       if int k < sector_ofs \<or> sector_ofs + chunk_size \<le> int k
       then data (buffer_head s' ! i) ! k = old ! k
       else data (buffer_head s' ! i) ! k = buffer ! (nat buffer_ofs + (k - nat sector_ofs)))"
proof -
  from hand have hand': "clock_hand s < length (buffer_head s)"
    by (simp add: BUFFER_CACHE_ENTRY_NB_def)
  from bc_select_victim_spec [OF hand' flushable] obtain idx s1 where
    v: "bc_select_victim s = Inr (Some idx, s1)" and idx: "idx < length (buffer_head s)"
    and len: "length (buffer_head s1) = length (buffer_head s)"
    and others: "\<forall>j < length (buffer_head s). j \<noteq> idx \<longrightarrow>
       buffer_head.sector (buffer_head s1 ! j) = buffer_head.sector (buffer_head s ! j)"
    and dev: "fs_device s1 =
      (if dirty (buffer_head s ! idx)
       then (fs_device s)[unat (buffer_head.sector (buffer_head s ! idx)) :=
              take (nat BLOCK_SECTOR_SIZE) (data (buffer_head s ! idx))]
       else fs_device s)"
    by blast
  from miss have absent: "\<forall>h \<in> set (buffer_head s). buffer_head.sector h \<noteq> sector_idx"
    by (simp add: bc_lookup_def bc_lookup_from_None)
  with idx have "buffer_head.sector (buffer_head s ! idx) \<noteq> sector_idx" by (auto dest: nth_mem)
  then have ne: "unat (buffer_head.sector (buffer_head s ! idx)) \<noteq> unat sector_idx"
    by (simp add: word_unat_eq_iff)
  from on_disk have inr: "unat sector_idx < length (fs_device s)"
    and old: "old = fs_device s ! unat sector_idx"
    by (auto simp: block_read_def split: if_splits)
  have rd: "block_read (fs_device s1) sector_idx = Inr old"
    using inr old ne dev by (auto simp: block_read_def)
  obtain data' where m: "memcpy old sector_ofs buffer buffer_ofs chunk_size = Inr data'"
    using range src old_len by (auto simp: memcpy_def BLOCK_SECTOR_SIZE_def)
  define s' where "s' = s1\<lparr>buffer_head := (buffer_head s1)
      [idx := (buffer_head s1 ! idx)\<lparr>data := data', dirty := True, valid := True,
          buffer_head.sector := sector_idx, clock_bit := True\<rparr>]\<rparr>"
  have w: "bc_write s sector_idx buffer buffer_ofs chunk_size sector_ofs = Inr (True, s')"
    using miss v rd m idx len by (simp add: bc_write_def s'_def)
  have "\<forall>j < idx. buffer_head.sector (buffer_head s' ! j) \<noteq> sector_idx"
    using others absent idx len by (auto simp: s'_def dest: nth_mem)
  then have lk: "bc_lookup s' sector_idx = Some idx"
    using bc_lookup_from_first [of idx "buffer_head s'" sector_idx 0] idx len
    by (simp add: bc_lookup_def s'_def)
  have d: "data (buffer_head s' ! idx) = data'"
    using idx len by (simp add: s'_def)
  have "\<forall>k < nat BLOCK_SECTOR_SIZE.
       if int k < sector_ofs \<or> sector_ofs + chunk_size \<le> int k
       then data' ! k = old ! k
       else data' ! k = buffer ! (nat buffer_ofs + (k - nat sector_ofs))"
    using memcpy_outside [OF m] memcpy_inside [OF m] old_len by auto
  with w lk d memcpy_length [OF m] old_len show ?thesis by auto
qed


theorem bc_write_miss_keeps_rest_of_sector_witness:
  "\<exists>s' i.
     bc_write
       \<lparr>buffer_head =
          [\<lparr>dirty = True, valid = True, buffer_head.sector = 1, clock_bit = False, data = replicate 512 7\<rparr>,
           \<lparr>dirty = False, valid = False, buffer_head.sector = - 1, clock_bit = False,
            data = replicate 512 0\<rparr>],
        clock_hand = 0,
        fs_device = [replicate 512 1, replicate 512 2, replicate 512 3]\<rparr>
       2 [9, 9] 0 2 10 = Inr (True, s') \<and>
     bc_lookup s' 2 = Some i \<and>
     data (buffer_head s' ! i) ! 100 = 3 \<and> data (buffer_head s' ! i) ! 11 = 9"
proof -
  let ?s = "\<lparr>buffer_head =
          [\<lparr>dirty = True, valid = True, buffer_head.sector = 1, clock_bit = False, data = replicate 512 7\<rparr>,
           \<lparr>dirty = False, valid = False, buffer_head.sector = - 1, clock_bit = False,
            data = replicate 512 0\<rparr>],
        clock_hand = 0,
        fs_device = [replicate 512 1, replicate 512 2, replicate 512 (3 :: byte)]\<rparr>"
  have "\<exists>s' i. bc_write ?s 2 [9, 9] 0 2 10 = Inr (True, s') \<and>
    bc_lookup s' 2 = Some i \<and>
    length (data (buffer_head s' ! i)) = nat BLOCK_SECTOR_SIZE \<and>
    (\<forall>k < nat BLOCK_SECTOR_SIZE.
       if int k < 10 \<or> 10 + 2 \<le> int k
       then data (buffer_head s' ! i) ! k = replicate 512 3 ! k
       else data (buffer_head s' ! i) ! k = [9, 9] ! (nat 0 + (k - nat 10)))"
    by (rule bc_write_miss_keeps_rest_of_sector)
      (simp_all add: bc_lookup_def block_read_def BLOCK_SECTOR_SIZE_def
        BUFFER_CACHE_ENTRY_NB_def)
  then obtain s' i where w: "bc_write ?s 2 [9, 9] 0 2 10 = Inr (True, s')"
    "bc_lookup s' 2 = Some i"
    and a: "\<forall>k < nat BLOCK_SECTOR_SIZE.
       if int k < 10 \<or> 10 + 2 \<le> int k
       then data (buffer_head s' ! i) ! k = replicate 512 3 ! k
       else data (buffer_head s' ! i) ! k = [9, 9] ! (nat 0 + (k - nat 10))"
    by blast
  from a [rule_format, of 100] have "data (buffer_head s' ! i) ! 100 = 3"
    by (simp add: BLOCK_SECTOR_SIZE_def)
  moreover from a [rule_format, of 11] have "data (buffer_head s' ! i) ! 11 = 9"
    by (simp add: BLOCK_SECTOR_SIZE_def)
  ultimately show ?thesis using w by blast
qed

lemma distinct_filter_map_index:
  "distinct (filter P (map f xs)) \<longleftrightarrow>
   (\<forall>i j. i < j \<and> j < length xs \<and> f (xs ! i) = f (xs ! j) \<longrightarrow> \<not> P (f (xs ! i)))"
proof (induction xs)
  case Nil
  then show ?case by simp
next
  case (Cons x xs)
  have split: "(\<forall>i j. i < j \<and> j < length (x # xs) \<and> f ((x # xs) ! i) = f ((x # xs) ! j)
        \<longrightarrow> \<not> P (f ((x # xs) ! i))) \<longleftrightarrow>
      (\<forall>j < length xs. f x = f (xs ! j) \<longrightarrow> \<not> P (f x)) \<and>
      (\<forall>i j. i < j \<and> j < length xs \<and> f (xs ! i) = f (xs ! j) \<longrightarrow> \<not> P (f (xs ! i)))"
    (is "?L \<longleftrightarrow> ?A \<and> ?B")
  proof
    assume l: ?L
    have ?A
    proof (intro allI impI)
      fix j assume "j < length xs" "f x = f (xs ! j)"
      with l [rule_format, of 0 "Suc j"] show "\<not> P (f x)" by simp
    qed
    moreover have ?B
    proof (intro allI impI)
      fix i j assume "i < j \<and> j < length xs \<and> f (xs ! i) = f (xs ! j)"
      with l [rule_format, of "Suc i" "Suc j"] show "\<not> P (f (xs ! i))" by simp
    qed
    ultimately show "?A \<and> ?B" ..
  next
    assume ab: "?A \<and> ?B"
    show ?L
    proof (intro allI impI)
      fix i j assume h: "i < j \<and> j < length (x # xs) \<and> f ((x # xs) ! i) = f ((x # xs) ! j)"
      then obtain j' where j: "j = Suc j'" by (cases j) auto
      show "\<not> P (f ((x # xs) ! i))"
      proof (cases i)
        case 0
        with h j ab show ?thesis by auto
      next
        case (Suc i')
        with h j ab show ?thesis by auto
      qed
    qed
  qed
  have mem: "f x \<in> set (map f xs) \<longleftrightarrow> (\<exists>j < length xs. f x = f (xs ! j))"
    by (force simp: in_set_conv_nth)
  show ?case
    unfolding split using Cons.IH mem by auto
qed

lemma unat_minus_one_32: "unat (- 1 :: 32 word) = 4294967295"
  by (simp add: unsigned_minus_1_eq_mask mask_eq_exp_minus_1)

lemma in_range_not_empty:
  "unat (t :: 32 word) < n \<Longrightarrow> n < 2 ^ 32 \<Longrightarrow> t \<noteq> - 1"
  by (auto simp: unat_minus_one_32)


lemma head_ok_fields:
  "buffer_head.sector h' = buffer_head.sector h \<Longrightarrow> data h' = data h \<Longrightarrow> dirty h' = dirty h \<Longrightarrow>
   head_ok dev h' = head_ok dev h"
  by (simp add: head_ok_def)

lemma bc_inv_index:
  "bc_inv s \<longleftrightarrow>
    clock_hand s < length (buffer_head s) \<and>
    length (fs_device s) < 2 ^ 32 \<and>
    (\<forall>d \<in> set (fs_device s). length d = nat BLOCK_SECTOR_SIZE) \<and>
    (\<forall>j < length (buffer_head s). head_ok (fs_device s) (buffer_head s ! j)) \<and>
    (\<forall>i j. i < length (buffer_head s) \<and> j < length (buffer_head s) \<and>
       buffer_head.sector (buffer_head s ! i) = buffer_head.sector (buffer_head s ! j) \<and>
       buffer_head.sector (buffer_head s ! i) \<noteq> - 1 \<longrightarrow> i = j)"
proof -
  have u: "distinct (filter (\<lambda>x. x \<noteq> - 1) (map buffer_head.sector (buffer_head s))) \<longleftrightarrow>
    (\<forall>i j. i < length (buffer_head s) \<and> j < length (buffer_head s) \<and>
       buffer_head.sector (buffer_head s ! i) = buffer_head.sector (buffer_head s ! j) \<and>
       buffer_head.sector (buffer_head s ! i) \<noteq> - 1 \<longrightarrow> i = j)" (is "?D \<longleftrightarrow> ?U")
  proof
    assume d: ?D
    show ?U
    proof (intro allI impI)
      fix i j
      assume h: "i < length (buffer_head s) \<and> j < length (buffer_head s) \<and>
       buffer_head.sector (buffer_head s ! i) = buffer_head.sector (buffer_head s ! j) \<and>
       buffer_head.sector (buffer_head s ! i) \<noteq> - 1"
      show "i = j"
      proof (rule ccontr)
        assume ne: "i \<noteq> j"
        from d [unfolded distinct_filter_map_index, rule_format, of "min i j" "max i j"] h ne
        show False by (auto simp: min_def max_def split: if_splits)
      qed
    qed
  next
    assume ?U
    then show ?D
      unfolding distinct_filter_map_index by (metis less_imp_not_eq less_trans)
  qed
  show ?thesis
    unfolding bc_inv_def u by (simp add: list_all_iff all_set_conv_all_nth)
qed

lemma bc_invD:
  assumes "bc_inv s"
  shows "clock_hand s < length (buffer_head s)"
    and "length (fs_device s) < 2 ^ 32"
    and "\<And>d. d \<in> set (fs_device s) \<Longrightarrow> length d = nat BLOCK_SECTOR_SIZE"
    and "\<And>j. j < length (buffer_head s) \<Longrightarrow> head_ok (fs_device s) (buffer_head s ! j)"
    and "\<And>i j. i < length (buffer_head s) \<Longrightarrow> j < length (buffer_head s) \<Longrightarrow>
       buffer_head.sector (buffer_head s ! i) = buffer_head.sector (buffer_head s ! j) \<Longrightarrow>
       buffer_head.sector (buffer_head s ! i) \<noteq> - 1 \<Longrightarrow> i = j"
  using assms unfolding bc_inv_index by blast+

lemma bc_invI:
  assumes "clock_hand s < length (buffer_head s)"
    and "length (fs_device s) < 2 ^ 32"
    and "\<And>d. d \<in> set (fs_device s) \<Longrightarrow> length d = nat BLOCK_SECTOR_SIZE"
    and "\<And>j. j < length (buffer_head s) \<Longrightarrow> head_ok (fs_device s) (buffer_head s ! j)"
    and "\<And>i j. i < length (buffer_head s) \<Longrightarrow> j < length (buffer_head s) \<Longrightarrow>
       buffer_head.sector (buffer_head s ! i) = buffer_head.sector (buffer_head s ! j) \<Longrightarrow>
       buffer_head.sector (buffer_head s ! i) \<noteq> - 1 \<Longrightarrow> i = j"
  shows "bc_inv s"
  unfolding bc_inv_index using assms by blast

lemma lookup_unique:
  assumes uniq: "\<And>i j. i < length heads \<Longrightarrow> j < length heads \<Longrightarrow>
       buffer_head.sector (heads ! i) = buffer_head.sector (heads ! j) \<Longrightarrow>
       buffer_head.sector (heads ! i) \<noteq> - 1 \<Longrightarrow> i = j"
    and j: "j < length heads" "buffer_head.sector (heads ! j) = t" "t \<noteq> - 1"
  shows "bc_lookup_from 0 heads t = Some j"
proof -
  from j have "bc_lookup_from 0 heads t \<noteq> None"
    by (auto simp: bc_lookup_from_None dest: nth_mem)
  then obtain k where k: "bc_lookup_from 0 heads t = Some k" by auto
  from bc_lookup_from_Some [OF k] have kk: "k < length heads" "buffer_head.sector (heads ! k) = t"
    by auto
  have "k = j" by (rule uniq) (use kk j in simp_all)
  with k show ?thesis by simp
qed

lemma view_hit:
  assumes "bc_inv s" "j < length (buffer_head s)"
    "buffer_head.sector (buffer_head s ! j) = t" "t \<noteq> - 1"
  shows "sector_view s t = data (buffer_head s ! j)"
proof -
  have "bc_lookup_from 0 (buffer_head s) t = Some j"
    by (rule lookup_unique [OF bc_invD(5) [OF assms(1)] assms(2-4)])
  then show ?thesis
    by (simp add: sector_view_def bc_lookup_def)
qed

lemma view_miss:
  assumes "\<And>j. j < length (buffer_head s) \<Longrightarrow> buffer_head.sector (buffer_head s ! j) \<noteq> t"
  shows "sector_view s t = fs_device s ! unat t"
proof -
  have "\<forall>h \<in> set (buffer_head s). buffer_head.sector h \<noteq> t"
    by (metis assms in_set_conv_nth)
  then have "bc_lookup_from 0 (buffer_head s) t = None"
    by (simp add: bc_lookup_from_None)
  then show ?thesis by (simp add: sector_view_def bc_lookup_def)
qed

lemma install:
  fixes s :: "'a bc_state_scheme"
  assumes inv: "bc_inv s"
    and i: "i < length (buffer_head s)"
    and old: "buffer_head.sector (buffer_head s ! i) = - 1 \<or>
              buffer_head.sector (buffer_head s ! i) = t"
    and t: "unat t < length (fs_device s)"
    and fresh: "\<And>j. j < length (buffer_head s) \<Longrightarrow> j \<noteq> i \<Longrightarrow>
                  buffer_head.sector (buffer_head s ! j) \<noteq> t"
    and h': "buffer_head.sector h' = t" "length (data h') = nat BLOCK_SECTOR_SIZE"
      "dirty h' \<or> data h' = fs_device s ! unat t"
  shows "bc_inv (s\<lparr>buffer_head := (buffer_head s)[i := h']\<rparr>)"
    and "\<And>u. unat u < length (fs_device s) \<Longrightarrow>
      sector_view (s\<lparr>buffer_head := (buffer_head s)[i := h']\<rparr>) u =
        (if u = t then data h' else sector_view s u)"
proof -
  let ?s' = "s\<lparr>buffer_head := (buffer_head s)[i := h']\<rparr>"
  note I = bc_invD [OF inv]
  from t I(2) have tne: "t \<noteq> - 1" by (rule in_range_not_empty)
  have ok: "head_ok (fs_device s) h'"
    using h' t tne by (auto simp: head_ok_def)
  have sec': "\<And>j. j < length (buffer_head s) \<Longrightarrow>
    buffer_head.sector (buffer_head ?s' ! j) =
      (if j = i then t else buffer_head.sector (buffer_head s ! j))"
    using h' by (simp add: nth_list_update)
  show inv': "bc_inv ?s'"
  proof (rule bc_invI)
    show "clock_hand ?s' < length (buffer_head ?s')" using I(1) by simp
    show "length (fs_device ?s') < 2 ^ 32" using I(2) by simp
    show "\<And>d. d \<in> set (fs_device ?s') \<Longrightarrow> length d = nat BLOCK_SECTOR_SIZE"
      using I(3) by simp
  next
    fix j assume "j < length (buffer_head ?s')"
    then show "head_ok (fs_device ?s') (buffer_head ?s' ! j)"
      using I(4) ok by (cases "j = i") simp_all
  next
    fix a b
    assume a: "a < length (buffer_head ?s')" and b: "b < length (buffer_head ?s')"
      and e: "buffer_head.sector (buffer_head ?s' ! a) = buffer_head.sector (buffer_head ?s' ! b)"
      and n: "buffer_head.sector (buffer_head ?s' ! a) \<noteq> - 1"
    from a b have a': "a < length (buffer_head s)" and b': "b < length (buffer_head s)"
      by simp_all
    show "a = b"
    proof (cases "a = i")
      case True
      show ?thesis
      proof (rule ccontr)
        assume "a \<noteq> b"
        with True have "b \<noteq> i" by simp
        with e True sec' [OF a'] sec' [OF b'] have "buffer_head.sector (buffer_head s ! b) = t"
          by simp
        with fresh [OF b' \<open>b \<noteq> i\<close>] show False by simp
      qed
    next
      case False
      show ?thesis
      proof (cases "b = i")
        case True
        with e False sec' [OF a'] sec' [OF b'] have "buffer_head.sector (buffer_head s ! a) = t"
          by simp
        with fresh [OF a' False] show ?thesis by simp
      next
        case bf: False
        from e n False bf sec' [OF a'] sec' [OF b']
        have "buffer_head.sector (buffer_head s ! a) = buffer_head.sector (buffer_head s ! b)"
          "buffer_head.sector (buffer_head s ! a) \<noteq> - 1" by simp_all
        with I(5) [OF a' b'] show ?thesis by simp
      qed
    qed
  qed
  fix u :: block_sector_t
  assume u: "unat u < length (fs_device s)"
  from u I(2) have une: "u \<noteq> - 1" by (rule in_range_not_empty)
  show "sector_view ?s' u = (if u = t then data h' else sector_view s u)"
  proof (cases "u = t")
    case True
    have "sector_view ?s' t = data (buffer_head ?s' ! i)"
      by (rule view_hit [OF inv']) (use i h' tne in simp_all)
    with True i show ?thesis by simp
  next
    case False
    show ?thesis
    proof (cases "\<exists>j < length (buffer_head s). buffer_head.sector (buffer_head s ! j) = u")
      case True
      then obtain j where j: "j < length (buffer_head s)"
        "buffer_head.sector (buffer_head s ! j) = u" by blast
      with old False une have ji: "j \<noteq> i" by auto
      have "sector_view ?s' u = data (buffer_head ?s' ! j)"
        by (rule view_hit [OF inv']) (use j ji une in simp_all)
      moreover have "sector_view s u = data (buffer_head s ! j)"
        by (rule view_hit [OF inv]) (use j une in simp_all)
      ultimately show ?thesis using False ji by simp
    next
      case no: False
      have "sector_view ?s' u = fs_device ?s' ! unat u"
      proof (rule view_miss)
        fix j assume "j < length (buffer_head ?s')"
        then have j: "j < length (buffer_head s)" by simp
        from no j False sec' [OF j] show "buffer_head.sector (buffer_head ?s' ! j) \<noteq> u"
          by auto
      qed
      moreover have "sector_view s u = fs_device s ! unat u"
        by (rule view_miss) (use no in blast)
      ultimately show ?thesis using False by simp
    qed
  qed
qed

lemma head_ok_dirty:
  "head_ok dev h \<Longrightarrow> dirty h \<Longrightarrow>
   buffer_head.sector h \<noteq> - 1 \<and> unat (buffer_head.sector h) < length dev \<and>
   length (data h) = nat BLOCK_SECTOR_SIZE"
  by (auto simp: head_ok_def split: if_splits)

lemma head_ok_clean:
  "head_ok dev h \<Longrightarrow> \<not> dirty h \<Longrightarrow> buffer_head.sector h \<noteq> - 1 \<Longrightarrow>
   data h = dev ! unat (buffer_head.sector h) \<and> unat (buffer_head.sector h) < length dev"
  by (auto simp: head_ok_def split: if_splits)

lemma head_ok_other_device:
  "head_ok dev h \<Longrightarrow> length dev' = length dev \<Longrightarrow>
   (buffer_head.sector h \<noteq> - 1 \<Longrightarrow>
      dev' ! unat (buffer_head.sector h) = dev ! unat (buffer_head.sector h)) \<Longrightarrow>
   head_ok dev' h"
  by (auto simp: head_ok_def split: if_splits)

lemma victim_inv:
  fixes s :: "'a bc_state_scheme"
  assumes inv: "bc_inv s"
  shows "\<exists>idx s1. bc_select_victim s = Inr (Some idx, s1) \<and>
    idx < length (buffer_head s) \<and> length (buffer_head s1) = length (buffer_head s) \<and>
    buffer_head.sector (buffer_head s1 ! idx) = - 1 \<and> bc_inv s1 \<and>
    length (fs_device s1) = length (fs_device s) \<and>
    (\<forall>u. unat u < length (fs_device s) \<longrightarrow> sector_view s1 u = sector_view s u) \<and>
    (\<forall>j < length (buffer_head s). buffer_head.sector (buffer_head s1 ! j) = - 1 \<or>
       buffer_head.sector (buffer_head s1 ! j) = buffer_head.sector (buffer_head s ! j)) \<and>
    bc_state.more s1 = bc_state.more s"
proof -
  note I = bc_invD [OF inv]
  have flushable: "\<forall>h \<in> set (buffer_head s). dirty h \<longrightarrow>
      unat (buffer_head.sector h) < length (fs_device s) \<and> nat BLOCK_SECTOR_SIZE \<le> length (data h)"
  proof (intro ballI impI)
    fix h assume "h \<in> set (buffer_head s)" "dirty h"
    then obtain j where "j < length (buffer_head s)" "h = buffer_head s ! j"
      by (auto simp: in_set_conv_nth)
    with I(4) [of j] \<open>dirty h\<close> head_ok_dirty [of "fs_device s" h]
    show "unat (buffer_head.sector h) < length (fs_device s) \<and>
      nat BLOCK_SECTOR_SIZE \<le> length (data h)" by simp
  qed
  from bc_select_victim_spec [OF I(1) flushable] obtain idx s1 where
    v: "bc_select_victim s = Inr (Some idx, s1)"
    and idx: "idx < length (buffer_head s)"
    and len: "length (buffer_head s1) = length (buffer_head s)"
    and hand1: "clock_hand s1 < length (buffer_head s)"
    and vs: "buffer_head.sector (buffer_head s1 ! idx) = - 1"
    and vc: "\<not> dirty (buffer_head s1 ! idx)"
    and others: "\<forall>j < length (buffer_head s). j \<noteq> idx \<longrightarrow>
       buffer_head.sector (buffer_head s1 ! j) = buffer_head.sector (buffer_head s ! j) \<and>
       data (buffer_head s1 ! j) = data (buffer_head s ! j) \<and>
       dirty (buffer_head s1 ! j) = dirty (buffer_head s ! j)"
    and dev: "fs_device s1 =
      (if dirty (buffer_head s ! idx)
       then (fs_device s)[unat (buffer_head.sector (buffer_head s ! idx)) :=
              take (nat BLOCK_SECTOR_SIZE) (data (buffer_head s ! idx))]
       else fs_device s)"
    and more: "bc_state.more s1 = bc_state.more s"
    by blast
  define vsec where "vsec = buffer_head.sector (buffer_head s ! idx)"
  define vdata where "vdata = data (buffer_head s ! idx)"
  have vok: "head_ok (fs_device s) (buffer_head s ! idx)" by (rule I(4) [OF idx])
  have vdirty: "dirty (buffer_head s ! idx) \<Longrightarrow>
      vsec \<noteq> - 1 \<and> unat vsec < length (fs_device s) \<and> length vdata = nat BLOCK_SECTOR_SIZE"
    using head_ok_dirty [OF vok] by (simp add: vsec_def vdata_def)
  have dlen: "length (fs_device s1) = length (fs_device s)"
    by (simp add: dev)
  have dsame: "\<And>n. \<not> (dirty (buffer_head s ! idx) \<and> n = unat vsec) \<Longrightarrow>
      fs_device s1 ! n = fs_device s ! n"
    by (auto simp: dev vsec_def)
  have dvictim: "dirty (buffer_head s ! idx) \<Longrightarrow> fs_device s1 ! unat vsec = vdata"
    using vdirty by (simp add: dev vsec_def vdata_def)
  have sec_other: "\<And>j. j < length (buffer_head s) \<Longrightarrow> j \<noteq> idx \<Longrightarrow>
      buffer_head.sector (buffer_head s ! j) \<noteq> - 1 \<Longrightarrow>
      buffer_head.sector (buffer_head s ! j) \<noteq> vsec"
    using I(5) idx unfolding vsec_def by metis
  have inv1: "bc_inv s1"
  proof (rule bc_invI)
    show "clock_hand s1 < length (buffer_head s1)" using hand1 len by simp
    show "length (fs_device s1) < 2 ^ 32" using I(2) dlen by simp
  next
    fix d assume d: "d \<in> set (fs_device s1)"
    show "length d = nat BLOCK_SECTOR_SIZE"
    proof (cases "dirty (buffer_head s ! idx)")
      case True
      with d dev have "d \<in> insert (take (nat BLOCK_SECTOR_SIZE) vdata) (set (fs_device s))"
        using set_update_subset_insert by (fastforce simp: vdata_def)
      with I(3) vdirty [OF True] show ?thesis by auto
    next
      case False
      with d dev I(3) show ?thesis by simp
    qed
  next
    fix j assume "j < length (buffer_head s1)"
    then have j: "j < length (buffer_head s)" using len by simp
    show "head_ok (fs_device s1) (buffer_head s1 ! j)"
    proof (cases "j = idx")
      case True
      with vs vc show ?thesis by (simp add: head_ok_def)
    next
      case False
      with others j have
        "head_ok (fs_device s1) (buffer_head s1 ! j) = head_ok (fs_device s1) (buffer_head s ! j)"
        by (intro head_ok_fields) simp_all
      moreover have "head_ok (fs_device s1) (buffer_head s ! j)"
      proof (rule head_ok_other_device [OF I(4) [OF j] dlen])
        assume "buffer_head.sector (buffer_head s ! j) \<noteq> - 1"
        from sec_other [OF j False this]
        have "unat (buffer_head.sector (buffer_head s ! j)) \<noteq> unat vsec"
          by (simp add: word_unat_eq_iff)
        then show "fs_device s1 ! unat (buffer_head.sector (buffer_head s ! j)) =
          fs_device s ! unat (buffer_head.sector (buffer_head s ! j))"
          by (intro dsame) simp
      qed
      ultimately show ?thesis by simp
    qed
  next
    fix a b
    assume a: "a < length (buffer_head s1)" and b: "b < length (buffer_head s1)"
      and e: "buffer_head.sector (buffer_head s1 ! a) = buffer_head.sector (buffer_head s1 ! b)"
      and n: "buffer_head.sector (buffer_head s1 ! a) \<noteq> - 1"
    from n vs have ai: "a \<noteq> idx" by auto
    from n e vs have bi: "b \<noteq> idx" by auto
    from a b len have a': "a < length (buffer_head s)" and b': "b < length (buffer_head s)"
      by simp_all
    from others a' b' ai bi e n show "a = b"
      by (intro I(5) [OF a' b']) simp_all
  qed
  have view: "sector_view s1 u = sector_view s u" if u: "unat u < length (fs_device s)" for u
  proof -
    from u I(2) have une: "u \<noteq> - 1" by (rule in_range_not_empty)
    show ?thesis
    proof (cases "\<exists>j < length (buffer_head s). buffer_head.sector (buffer_head s ! j) = u")
      case True
      then obtain j where j: "j < length (buffer_head s)"
        "buffer_head.sector (buffer_head s ! j) = u" by blast
      have old: "sector_view s u = data (buffer_head s ! j)"
        by (rule view_hit [OF inv j une])
      show ?thesis
      proof (cases "j = idx")
        case True
        with j have uv: "u = vsec" by (simp add: vsec_def)
        have "sector_view s1 u = fs_device s1 ! unat u"
        proof (rule view_miss)
          fix k assume "k < length (buffer_head s1)"
          then have k: "k < length (buffer_head s)" using len by simp
          show "buffer_head.sector (buffer_head s1 ! k) \<noteq> u"
          proof (cases "k = idx")
            case True
            with vs une show ?thesis by simp
          next
            case False
            show ?thesis
            proof
              assume "buffer_head.sector (buffer_head s1 ! k) = u"
              with others k False have "buffer_head.sector (buffer_head s ! k) = u" by simp
              with sec_other [OF k False] une uv show False by simp
            qed
          qed
        qed
        also have "\<dots> = vdata"
        proof (cases "dirty (buffer_head s ! idx)")
          case True
          with dvictim uv show ?thesis by simp
        next
          case False
          with dev have "fs_device s1 = fs_device s" by simp
          moreover from head_ok_clean [OF vok False] une uv
          have "vdata = fs_device s ! unat vsec" by (simp add: vsec_def vdata_def)
          ultimately show ?thesis using uv by simp
        qed
        finally show ?thesis using old True by (simp add: vdata_def)
      next
        case False
        have "sector_view s1 u = data (buffer_head s1 ! j)"
          by (rule view_hit [OF inv1]) (use j False others len une in simp_all)
        with old others j False show ?thesis by simp
      qed
    next
      case no: False
      have "sector_view s1 u = fs_device s1 ! unat u"
      proof (rule view_miss)
        fix k assume "k < length (buffer_head s1)"
        then have k: "k < length (buffer_head s)" using len by simp
        show "buffer_head.sector (buffer_head s1 ! k) \<noteq> u"
          using no k others vs une by (cases "k = idx") auto
      qed
      moreover have "sector_view s u = fs_device s ! unat u"
        by (rule view_miss) (use no in blast)
      moreover have "fs_device s1 ! unat u = fs_device s ! unat u"
      proof (rule dsame)
        from no idx have "u \<noteq> vsec" by (auto simp: vsec_def)
        then show "\<not> (dirty (buffer_head s ! idx) \<and> unat u = unat vsec)"
          by (simp add: word_unat_eq_iff)
      qed
      ultimately show ?thesis by simp
    qed
  qed
  have secs: "\<forall>j < length (buffer_head s). buffer_head.sector (buffer_head s1 ! j) = - 1 \<or>
       buffer_head.sector (buffer_head s1 ! j) = buffer_head.sector (buffer_head s ! j)"
    using others vs by (metis)
  from v idx len vs inv1 dlen view secs more show ?thesis by blast
qed

lemma bc_lookup_Some:
  "bc_lookup s sec = Some j \<Longrightarrow>
   j < length (buffer_head s) \<and> buffer_head.sector (buffer_head s ! j) = sec"
  by (auto simp: bc_lookup_def dest: bc_lookup_from_Some)

lemma bc_lookup_None:
  "bc_lookup s sec = None \<Longrightarrow> j < length (buffer_head s) \<Longrightarrow>
   buffer_head.sector (buffer_head s ! j) \<noteq> sec"
  by (auto simp: bc_lookup_def bc_lookup_from_None dest: nth_mem)

lemma view_length:
  assumes inv: "bc_inv s" and u: "unat u < length (fs_device s)"
  shows "length (sector_view s u) = nat BLOCK_SECTOR_SIZE"
proof (cases "bc_lookup s u")
  case None
  with bc_invD(3) [OF inv] u show ?thesis by (simp add: sector_view_def)
next
  case (Some j)
  from u bc_invD(2) [OF inv] have "u \<noteq> - 1" by (rule in_range_not_empty)
  with bc_lookup_Some [OF Some] bc_invD(4) [OF inv, of j] Some show ?thesis
    by (auto simp: sector_view_def head_ok_def split: if_splits)
qed

lemma bc_read_spec:
  fixes s :: "'a bc_state_scheme"
  assumes inv: "bc_inv s" and t: "unat sec < length (fs_device s)"
    and m: "memcpy buffer buffer_ofs (sector_view s sec) sector_ofs n = Inr buffer'"
  shows "\<exists>s'. bc_read s sec buffer buffer_ofs n sector_ofs = Inr (True, buffer', s') \<and>
    bc_inv s' \<and> length (fs_device s') = length (fs_device s) \<and>
    (\<forall>u. unat u < length (fs_device s) \<longrightarrow> sector_view s' u = sector_view s u) \<and>
    bc_state.more s' = bc_state.more s"
proof (cases "bc_lookup s sec")
  case (Some j)
  note I = bc_invD [OF inv]
  from t I(2) have tne: "sec \<noteq> - 1" by (rule in_range_not_empty)
  from bc_lookup_Some [OF Some] have j: "j < length (buffer_head s)"
    "buffer_head.sector (buffer_head s ! j) = sec" by simp_all
  have v: "sector_view s sec = data (buffer_head s ! j)"
    using Some by (simp add: sector_view_def)
  define h' where "h' = (buffer_head s ! j)\<lparr>clock_bit := True\<rparr>"
  define s' where "s' = s\<lparr>buffer_head := (buffer_head s)[j := h']\<rparr>"
  have r: "bc_read s sec buffer buffer_ofs n sector_ofs = Inr (True, buffer', s')"
    using Some m v by (simp add: bc_read_def s'_def h'_def)
  have ok: "head_ok (fs_device s) (buffer_head s ! j)" by (rule I(4) [OF j(1)])
  have fresh: "\<And>k. k < length (buffer_head s) \<Longrightarrow> k \<noteq> j \<Longrightarrow>
      buffer_head.sector (buffer_head s ! k) \<noteq> sec"
    using I(5) j tne by metis
  have h: "buffer_head.sector h' = sec" "length (data h') = nat BLOCK_SECTOR_SIZE"
    "dirty h' \<or> data h' = fs_device s ! unat sec"
    using ok j tne by (auto simp: h'_def head_ok_def split: if_splits)
  from install [OF inv j(1) _ t fresh h] j
  have "bc_inv s'" and "\<And>u. unat u < length (fs_device s) \<Longrightarrow>
      sector_view s' u = (if u = sec then data h' else sector_view s u)"
    by (simp_all add: s'_def)
  moreover have "data h' = sector_view s sec" by (simp add: h'_def v)
  ultimately show ?thesis using r by (auto simp: s'_def)
next
  case None
  from victim_inv [OF inv] obtain idx s1 where
    vi: "bc_select_victim s = Inr (Some idx, s1)"
    and idx: "idx < length (buffer_head s)"
    and len: "length (buffer_head s1) = length (buffer_head s)"
    and vs: "buffer_head.sector (buffer_head s1 ! idx) = - 1"
    and inv1: "bc_inv s1"
    and dlen: "length (fs_device s1) = length (fs_device s)"
    and view1: "\<forall>u. unat u < length (fs_device s) \<longrightarrow> sector_view s1 u = sector_view s u"
    and secs: "\<forall>j < length (buffer_head s). buffer_head.sector (buffer_head s1 ! j) = - 1 \<or>
       buffer_head.sector (buffer_head s1 ! j) = buffer_head.sector (buffer_head s ! j)"
    and more: "bc_state.more s1 = bc_state.more s"
    by blast
  note I1 = bc_invD [OF inv1]
  from t bc_invD(2) [OF inv] have tne: "sec \<noteq> - 1" by (rule in_range_not_empty)
  have miss1: "\<And>k. k < length (buffer_head s1) \<Longrightarrow>
      buffer_head.sector (buffer_head s1 ! k) \<noteq> sec"
    using secs len tne bc_lookup_None [OF None] by metis
  have v1: "sector_view s1 sec = fs_device s1 ! unat sec"
    by (rule view_miss) (rule miss1)
  with view1 t have v: "fs_device s1 ! unat sec = sector_view s sec" by simp
  have rd: "block_read (fs_device s1) sec = Inr (sector_view s sec)"
    using t dlen v by (simp add: block_read_def)
  define h' where "h' = (buffer_head s1 ! idx)
      \<lparr>data := sector_view s sec, dirty := False, valid := True,
       buffer_head.sector := sec, clock_bit := True\<rparr>"
  define s' where "s' = s1\<lparr>buffer_head := (buffer_head s1)[idx := h']\<rparr>"
  have r: "bc_read s sec buffer buffer_ofs n sector_ofs = Inr (True, buffer', s')"
    using None vi rd m idx len by (simp add: bc_read_def s'_def h'_def)
  have h: "buffer_head.sector h' = sec" "length (data h') = nat BLOCK_SECTOR_SIZE"
    "dirty h' \<or> data h' = fs_device s1 ! unat sec"
    using v view_length [OF inv t] by (simp_all add: h'_def)
  from idx len have idx1: "idx < length (buffer_head s1)" by simp
  from t dlen have t1: "unat sec < length (fs_device s1)" by simp
  from install [OF inv1 idx1 _ t1 _ h] vs miss1
  have "bc_inv s'" and u: "\<And>u. unat u < length (fs_device s1) \<Longrightarrow>
      sector_view s' u = (if u = sec then data h' else sector_view s1 u)"
    by (simp_all add: s'_def)
  moreover have "data h' = sector_view s sec" by (simp add: h'_def)
  ultimately show ?thesis using r view1 dlen more by (auto simp: s'_def)
qed

lemma bc_write_spec:
  fixes s :: "'a bc_state_scheme"
  assumes inv: "bc_inv s" and t: "unat sec < length (fs_device s)"
    and m: "memcpy (sector_view s sec) sector_ofs buffer buffer_ofs n = Inr data'"
  shows "\<exists>s'. bc_write s sec buffer buffer_ofs n sector_ofs = Inr (True, s') \<and>
    bc_inv s' \<and> length (fs_device s') = length (fs_device s) \<and>
    (\<forall>u. unat u < length (fs_device s) \<longrightarrow>
       sector_view s' u = (if u = sec then data' else sector_view s u)) \<and>
    bc_state.more s' = bc_state.more s"
proof (cases "bc_lookup s sec")
  case (Some j)
  note I = bc_invD [OF inv]
  from t I(2) have tne: "sec \<noteq> - 1" by (rule in_range_not_empty)
  from bc_lookup_Some [OF Some] have j: "j < length (buffer_head s)"
    "buffer_head.sector (buffer_head s ! j) = sec" by simp_all
  have v: "sector_view s sec = data (buffer_head s ! j)"
    using Some by (simp add: sector_view_def)
  define h' where "h' = (buffer_head s ! j)
      \<lparr>data := data', dirty := True, valid := True, buffer_head.sector := sec,
       clock_bit := True\<rparr>"
  define s' where "s' = s\<lparr>buffer_head := (buffer_head s)[j := h']\<rparr>"
  have r: "bc_write s sec buffer buffer_ofs n sector_ofs = Inr (True, s')"
    using Some m v by (simp add: bc_write_def s'_def h'_def)
  have fresh: "\<And>k. k < length (buffer_head s) \<Longrightarrow> k \<noteq> j \<Longrightarrow>
      buffer_head.sector (buffer_head s ! k) \<noteq> sec"
    using I(5) j tne by metis
  have h: "buffer_head.sector h' = sec" "length (data h') = nat BLOCK_SECTOR_SIZE"
    "dirty h' \<or> data h' = fs_device s ! unat sec"
    using memcpy_length [OF m] view_length [OF inv t] by (simp_all add: h'_def)
  from install [OF inv j(1) _ t fresh h] j
  have "bc_inv s'" and "\<And>u. unat u < length (fs_device s) \<Longrightarrow>
      sector_view s' u = (if u = sec then data h' else sector_view s u)"
    by (simp_all add: s'_def)
  moreover have "data h' = data'" by (simp add: h'_def)
  ultimately show ?thesis using r by (auto simp: s'_def)
next
  case None
  from victim_inv [OF inv] obtain idx s1 where
    vi: "bc_select_victim s = Inr (Some idx, s1)"
    and idx: "idx < length (buffer_head s)"
    and len: "length (buffer_head s1) = length (buffer_head s)"
    and vs: "buffer_head.sector (buffer_head s1 ! idx) = - 1"
    and inv1: "bc_inv s1"
    and dlen: "length (fs_device s1) = length (fs_device s)"
    and view1: "\<forall>u. unat u < length (fs_device s) \<longrightarrow> sector_view s1 u = sector_view s u"
    and secs: "\<forall>j < length (buffer_head s). buffer_head.sector (buffer_head s1 ! j) = - 1 \<or>
       buffer_head.sector (buffer_head s1 ! j) = buffer_head.sector (buffer_head s ! j)"
    and more: "bc_state.more s1 = bc_state.more s"
    by blast
  from t bc_invD(2) [OF inv] have tne: "sec \<noteq> - 1" by (rule in_range_not_empty)
  have miss1: "\<And>k. k < length (buffer_head s1) \<Longrightarrow>
      buffer_head.sector (buffer_head s1 ! k) \<noteq> sec"
    using secs len tne bc_lookup_None [OF None] by metis
  have v1: "sector_view s1 sec = fs_device s1 ! unat sec"
    by (rule view_miss) (rule miss1)
  with view1 t have v: "fs_device s1 ! unat sec = sector_view s sec" by simp
  have rd: "block_read (fs_device s1) sec = Inr (sector_view s sec)"
    using t dlen v by (simp add: block_read_def)
  define h' where "h' = (buffer_head s1 ! idx)
      \<lparr>data := data', dirty := True, valid := True,
       buffer_head.sector := sec, clock_bit := True\<rparr>"
  define s' where "s' = s1\<lparr>buffer_head := (buffer_head s1)[idx := h']\<rparr>"
  have r: "bc_write s sec buffer buffer_ofs n sector_ofs = Inr (True, s')"
    using None vi rd m idx len by (simp add: bc_write_def s'_def h'_def)
  have h: "buffer_head.sector h' = sec" "length (data h') = nat BLOCK_SECTOR_SIZE"
    "dirty h' \<or> data h' = fs_device s1 ! unat sec"
    using memcpy_length [OF m] view_length [OF inv t] by (simp_all add: h'_def)
  from idx len have idx1: "idx < length (buffer_head s1)" by simp
  from t dlen have t1: "unat sec < length (fs_device s1)" by simp
  from install [OF inv1 idx1 _ t1 _ h] vs miss1
  have "bc_inv s'" and u: "\<And>u. unat u < length (fs_device s1) \<Longrightarrow>
      sector_view s' u = (if u = sec then data h' else sector_view s1 u)"
    by (simp_all add: s'_def)
  moreover have "data h' = data'" by (simp add: h'_def)
  ultimately show ?thesis using r view1 dlen more by (auto simp: s'_def)
qed

subsection \<open>Structures and their bytes\<close>

lemma unat_byte_of_nat: "unat (of_nat n :: byte) = n mod 256"
  by (simp add: unat_of_nat)

lemma bytes_recompose:
  assumes "(n::nat) < 256 * 256 * 256 * 256"
  shows "n mod 256 + 256 * (n div 256 mod 256 + 256 * (n div 256 div 256 mod 256 +
      256 * (n div 256 div 256 div 256 mod 256))) = n"
proof -
  have "n div 256 div 256 div 256 < 256"
    using assms by (simp add: div_mult2_eq [symmetric] less_mult_imp_div_less)
  then have "n div 256 div 256 div 256 mod 256 = n div 256 div 256 div 256" by simp
  then show ?thesis by (simp add: mod_mult_div_eq)
qed

lemma length_word_bytes [simp]: "length (word_bytes w) = 4"
  by (simp add: word_bytes_def Let_def)

lemma bytes_word_word_bytes: "bytes_word (word_bytes w @ rest) = w"
proof -
  have "unat w < 2 ^ 32" using unsigned_less [of w, where 'a = nat] by simp
  then have "unat w < 256 * 256 * 256 * 256" by simp
  then show ?thesis
    by (simp add: bytes_word_def word_bytes_def Let_def unat_byte_of_nat bytes_recompose
        del: of_nat_add of_nat_mult)
qed

lemma bytes_word_take4: "bytes_word (take 4 bs) = bytes_word bs" if "4 \<le> length bs"
  using that by (simp add: bytes_word_def)

lemma length_concat_word_bytes [simp]: "length (concat (map word_bytes ws)) = 4 * length ws"
  by (induction ws) simp_all

lemma word_at_concat:
  "k < length ws \<Longrightarrow> word_at (concat (map word_bytes ws) @ rest) k = ws ! k"
proof (induction ws arbitrary: k)
  case Nil
  then show ?case by simp
next
  case (Cons w ws)
  show ?case
  proof (cases k)
    case 0
    have "take 4 (word_bytes w @ concat (map word_bytes ws) @ rest) = word_bytes w"
      by simp
    then show ?thesis using 0 bytes_word_word_bytes [of w "[]"]
      by (simp add: word_at_def)
  next
    case (Suc k')
    with Cons.prems have k': "k' < length ws" by simp
    have "drop (4 * k) (concat (map word_bytes (w # ws)) @ rest) =
          drop (4 * k') (concat (map word_bytes ws) @ rest)"
      using Suc by simp
    with Cons.IH [OF k'] Suc show ?thesis by (simp add: word_at_def)
  qed
qed

lemma word_at_take:
  "4 * k + 4 \<le> n \<Longrightarrow> word_at (take n buf) k = word_at buf k"
  by (simp add: word_at_def drop_take min_def)

lemma length_inode_disk_words [simp]:
  "length (inode_disk_words d) = length (direct_map_table d) + 5"
  by (simp add: inode_disk_words_def)

lemma length_inode_disk_bytes:
  "length (direct_map_table d) = nat DIRECT_BLOCK_ENTRIES \<Longrightarrow>
   length (inode_disk_bytes d) = nat BLOCK_SECTOR_SIZE"
  by (simp add: inode_disk_bytes_def DIRECT_BLOCK_ENTRIES_def BLOCK_SECTOR_SIZE_def)

lemma length_inode_disk_bytes_512:
  "length (direct_map_table d) = 123 \<Longrightarrow> length (inode_disk_bytes d) = 512"
  using length_inode_disk_bytes [of d] by (simp add: DIRECT_BLOCK_ENTRIES_def BLOCK_SECTOR_SIZE_def)

lemma bytes_inode_disk_take:
  "bytes_inode_disk (take (nat BLOCK_SECTOR_SIZE) buf) = bytes_inode_disk buf"
  by (simp add: bytes_inode_disk_def word_at_take BLOCK_SECTOR_SIZE_def DIRECT_BLOCK_ENTRIES_def)

lemma bytes_inode_disk_inode_disk_bytes:
  assumes n: "length (direct_map_table d) = nat DIRECT_BLOCK_ENTRIES"
    and r: "- (2 ^ 31) \<le> length_field d" "length_field d < 2 ^ 31"
  shows "bytes_inode_disk (inode_disk_bytes d @ rest) = d"
proof -
  have w: "\<And>k. k < 128 \<Longrightarrow> word_at (inode_disk_bytes d @ rest) k = inode_disk_words d ! k"
    unfolding inode_disk_bytes_def using n
    by (intro word_at_concat) (simp add: DIRECT_BLOCK_ENTRIES_def)
  have len: "length (direct_map_table d) = 123"
    using n by (simp add: DIRECT_BLOCK_ENTRIES_def)
  have tbl: "map (word_at (inode_disk_bytes d @ rest)) [0..<123] = direct_map_table d"
    by (rule nth_equalityI) (simp_all add: len w inode_disk_words_def nth_append)
  have s: "sint (word_of_int (length_field d) :: 32 word) = length_field d"
    using r by (simp add: sint_sbintrunc' signed_take_bit_int_eq_self)
  show ?thesis
    by (simp add: bytes_inode_disk_def w tbl DIRECT_BLOCK_ENTRIES_def inode_disk_words_def
        nth_append len s)
qed

lemma length_bytes_inode_disk_table [simp]:
  "length (direct_map_table (bytes_inode_disk buf)) = nat DIRECT_BLOCK_ENTRIES"
  by (simp add: bytes_inode_disk_def)


subsection \<open>What a returning cache operation has done, in any state\<close>

lemma bc_flush_entry_result:
  assumes "bc_flush_entry s idx = Inr s1"
  shows "length (buffer_head s1) = length (buffer_head s) \<and>
    (\<forall>j. buffer_head.sector (buffer_head s1 ! j) = buffer_head.sector (buffer_head s ! j)) \<and>
    (\<forall>n. n \<noteq> unat (buffer_head.sector (buffer_head s ! idx)) \<longrightarrow>
       fs_device s1 ! n = fs_device s ! n) \<and>
    bc_state.more s1 = bc_state.more s"
  using assms
  by (auto simp: bc_flush_entry_def block_write_def Let_def nth_list_update
      split: if_splits)

lemma bc_select_victim_result:
  assumes "bc_select_victim s = Inr (r, s1)"
  shows "\<exists>idx. r = Some idx \<and> idx < length (buffer_head s) \<and>
    length (buffer_head s1) = length (buffer_head s) \<and>
    (\<forall>j < length (buffer_head s). j \<noteq> idx \<longrightarrow>
       buffer_head.sector (buffer_head s1 ! j) = buffer_head.sector (buffer_head s ! j)) \<and>
    (\<forall>n. n \<noteq> unat (buffer_head.sector (buffer_head s ! idx)) \<longrightarrow>
       fs_device s1 ! n = fs_device s ! n) \<and>
    bc_state.more s1 = bc_state.more s"
proof -
  from assms obtain idx heads hand where
    sw: "clock_sweep (buffer_head s) (clock_hand s) = Inr (idx, heads, hand)"
    by (auto simp: bc_select_victim_def split: sum.splits)
  note fr = clock_sweep_frame [OF sw]
  define s0 where "s0 = s\<lparr>buffer_head := heads, clock_hand := hand\<rparr>"
  from fr have idx: "idx < length (buffer_head s)" and len: "length heads = length (buffer_head s)"
    and secs: "\<forall>j < length (buffer_head s).
      buffer_head.sector (heads ! j) = buffer_head.sector (buffer_head s ! j)"
    by auto
  show ?thesis
  proof (cases "dirty (heads ! idx)")
    case True
    with assms sw obtain s2 where fl: "bc_flush_entry s0 idx = Inr s2"
      and r: "r = Some idx"
      and s1: "s1 = s2\<lparr>buffer_head := (buffer_head s2)
          [idx := (buffer_head s2 ! idx)\<lparr>dirty := False, valid := False,
             buffer_head.sector := - 1\<rparr>]\<rparr>"
      by (auto simp: bc_select_victim_def s0_def Let_def split: sum.splits)
    from bc_flush_entry_result [OF fl] secs idx len r show ?thesis
      by (simp add: s1 s0_def nth_list_update)
  next
    case False
    with assms sw have "r = Some idx"
      and "s1 = s0\<lparr>buffer_head := (buffer_head s0)
          [idx := (buffer_head s0 ! idx)\<lparr>dirty := False, valid := False,
             buffer_head.sector := - 1\<rparr>]\<rparr>"
      by (auto simp: bc_select_victim_def s0_def Let_def split: sum.splits)
    with secs idx len show ?thesis
      by (simp add: s0_def nth_list_update)
  qed
qed

lemma bc_lookup_after_update:
  assumes "i < length heads" "buffer_head.sector h' = sec"
    and "\<forall>j < i. buffer_head.sector (heads ! j) \<noteq> sec"
  shows "bc_lookup_from 0 (heads[i := h']) sec = Some i"
  using bc_lookup_from_first [of i "heads[i := h']" sec 0] assms by simp

lemma bc_read_result:
  assumes "bc_read s sec buffer buffer_ofs n sector_ofs = Inr (ok, buffer', s')"
  shows "ok \<and> memcpy buffer buffer_ofs (sector_view s sec) sector_ofs n = Inr buffer' \<and>
    bc_state.more s' = bc_state.more s"
proof (cases "bc_lookup s sec")
  case (Some j)
  with assms show ?thesis
    by (auto simp: bc_read_def sector_view_def split: sum.splits)
next
  case None
  with assms obtain r s1 where v: "bc_select_victim s = Inr (r, s1)"
    by (auto simp: bc_read_def split: sum.splits)
  from bc_select_victim_result [OF v] obtain idx where r: "r = Some idx"
    and idx: "idx < length (buffer_head s)"
    and len: "length (buffer_head s1) = length (buffer_head s)"
    and dev: "\<forall>n. n \<noteq> unat (buffer_head.sector (buffer_head s ! idx)) \<longrightarrow>
       fs_device s1 ! n = fs_device s ! n"
    and more: "bc_state.more s1 = bc_state.more s"
    by blast
  from bc_lookup_None [OF None idx] have "unat sec \<noteq> unat (buffer_head.sector (buffer_head s ! idx))"
    by (simp add: word_unat_eq_iff)
  with dev have d: "fs_device s1 ! unat sec = fs_device s ! unat sec" by simp
  have view: "sector_view s sec = fs_device s ! unat sec"
    using None by (simp add: sector_view_def)
  from assms None v r d view idx len more show ?thesis
    by (auto simp: bc_read_def block_read_def split: sum.splits if_splits)
qed

lemma bc_write_result:
  assumes "bc_write s sec buffer buffer_ofs n sector_ofs = Inr (ok, s')"
  shows "ok \<and> memcpy (sector_view s sec) sector_ofs buffer buffer_ofs n = Inr (sector_view s' sec) \<and>
    bc_state.more s' = bc_state.more s"
proof (cases "bc_lookup s sec")
  case (Some j)
  from bc_lookup_from_Some [of 0 "buffer_head s" sec j] Some
  have j: "j < length (buffer_head s)" "\<forall>k < j. buffer_head.sector (buffer_head s ! k) \<noteq> sec"
    by (auto simp: bc_lookup_def)
  from assms Some obtain data' where
    m: "memcpy (data (buffer_head s ! j)) sector_ofs buffer buffer_ofs n = Inr data'"
    and ok: "ok"
    and s': "s' = s\<lparr>buffer_head := (buffer_head s)
        [j := (buffer_head s ! j)\<lparr>data := data', dirty := True, valid := True,
           buffer_head.sector := sec, clock_bit := True\<rparr>]\<rparr>"
    by (auto simp: bc_write_def split: sum.splits)
  have "bc_lookup s' sec = Some j"
    unfolding bc_lookup_def s' using j by (simp add: bc_lookup_after_update)
  then have "sector_view s' sec = data'"
    using j by (simp add: sector_view_def s')
  with m ok Some show ?thesis by (simp add: sector_view_def s')
next
  case None
  with assms obtain r s1 where v: "bc_select_victim s = Inr (r, s1)"
    by (auto simp: bc_write_def split: sum.splits)
  from bc_select_victim_result [OF v] obtain idx where r: "r = Some idx"
    and idx: "idx < length (buffer_head s)"
    and len: "length (buffer_head s1) = length (buffer_head s)"
    and secs: "\<forall>j < length (buffer_head s). j \<noteq> idx \<longrightarrow>
       buffer_head.sector (buffer_head s1 ! j) = buffer_head.sector (buffer_head s ! j)"
    and dev: "\<forall>n. n \<noteq> unat (buffer_head.sector (buffer_head s ! idx)) \<longrightarrow>
       fs_device s1 ! n = fs_device s ! n"
    and more: "bc_state.more s1 = bc_state.more s"
    by blast
  from bc_lookup_None [OF None idx] have "unat sec \<noteq> unat (buffer_head.sector (buffer_head s ! idx))"
    by (simp add: word_unat_eq_iff)
  with dev have d: "fs_device s1 ! unat sec = fs_device s ! unat sec" by simp
  have view: "sector_view s sec = fs_device s ! unat sec"
    using None by (simp add: sector_view_def)
  from assms None v r idx len obtain data' where
    m: "memcpy (fs_device s1 ! unat sec) sector_ofs buffer buffer_ofs n = Inr data'"
    and ok: "ok"
    and s': "s' = s1\<lparr>buffer_head := (buffer_head s1)
        [idx := (buffer_head s1 ! idx)\<lparr>data := data', dirty := True, valid := True,
           buffer_head.sector := sec, clock_bit := True\<rparr>]\<rparr>"
    by (auto simp: bc_write_def block_read_def split: sum.splits if_splits)
  have "\<forall>k < idx. buffer_head.sector (buffer_head s1 ! k) \<noteq> sec"
    using secs idx bc_lookup_None [OF None] by auto
  then have "bc_lookup s' sec = Some idx"
    unfolding bc_lookup_def s' using idx len by (simp add: bc_lookup_after_update)
  then have "sector_view s' sec = data'"
    using idx len by (simp add: sector_view_def s')
  with m ok d view more show ?thesis by (simp add: s')
qed

subsection \<open>Frames\<close>

lemma bc_more_eq:
  "bc_state.more s' = bc_state.more s \<Longrightarrow>
   s' = s\<lparr>buffer_head := buffer_head s', clock_hand := clock_hand s', fs_device := fs_device s'\<rparr>"
  by (rule bc_state.equality) simp_all

lemma fs_more_eq:
  fixes s :: "'a fs_state_scheme"
  assumes "bc_state.more s' = bc_state.more s"
  shows "malloc_script s' = malloc_script s" "free_map s' = free_map s"
    "open_inodes s' = open_inodes s" "fs_state.more s' = fs_state.more s"
  by (subst bc_more_eq [OF assms], simp)+

lemma sector_view_cong:
  "buffer_head s' = buffer_head s \<Longrightarrow> fs_device s' = fs_device s \<Longrightarrow>
   sector_view s' sec = sector_view s sec"
  by (simp add: sector_view_def bc_lookup_def split: option.splits)

lemma malloc_frame:
  assumes "malloc s = (ok, s1)"
  shows "buffer_head s1 = buffer_head s" "clock_hand s1 = clock_hand s"
    "fs_device s1 = fs_device s" "free_map s1 = free_map s" "open_inodes s1 = open_inodes s"
    "fs_state.more s1 = fs_state.more s"
  using assms by (auto simp: malloc_def split: list.splits)

lemma inode_deref_cong:
  "open_inodes s' = open_inodes s \<Longrightarrow> inode_deref s' p = inode_deref s p"
  by (simp add: inode_deref_def split: option.splits)

lemma inode_store_frame [simp]:
  "buffer_head (inode_store s i) = buffer_head s"
  "clock_hand (inode_store s i) = clock_hand s"
  "fs_device (inode_store s i) = fs_device s"
  "free_map (inode_store s i) = free_map s"
  "malloc_script (inode_store s i) = malloc_script s"
  "fs_state.more (inode_store s i) = fs_state.more s"
  by (simp_all add: inode_store_def)

lemma lock_acquire_frame:
  assumes "lock_acquire s p = Inr s'"
  shows "buffer_head s' = buffer_head s" "clock_hand s' = clock_hand s"
    "fs_device s' = fs_device s" "free_map s' = free_map s"
  using assms by (auto simp: lock_acquire_def ebind_def split: sum.splits if_splits)

lemma lock_release_frame:
  assumes "lock_release s p = Inr s'"
  shows "buffer_head s' = buffer_head s" "clock_hand s' = clock_hand s"
    "fs_device s' = fs_device s" "free_map s' = free_map s"
  using assms by (auto simp: lock_release_def ebind_def split: sum.splits if_splits)

subsection \<open>Reading and writing an inode's sector\<close>





subsection \<open>Growth leaves the length field alone\<close>






lemma int32_id:
  "- (2 ^ 31) \<le> x \<Longrightarrow> x < 2 ^ 31 \<Longrightarrow> int32 x = x"
  by (simp add: int32_def signed_take_bit_int_eq_self)





subsection \<open>Length of the file after a write\<close>


subsection \<open>A denied write\<close>

lemma bc_inv_cong:
  "buffer_head s' = buffer_head s \<Longrightarrow> clock_hand s' = clock_hand s \<Longrightarrow>
   fs_device s' = fs_device s \<Longrightarrow> bc_inv s' = bc_inv s"
  by (simp add: bc_inv_def)

lemma disk_image_eqI:
  assumes "length (fs_device s') = length (fs_device s)" "length (fs_device s) < 2 ^ 32"
    and "\<And>u. unat u < length (fs_device s) \<Longrightarrow> sector_view s' u = sector_view s u"
  shows "disk_image s' = disk_image s"
proof -
  have "sector_view s' (of_nat n) = sector_view s (of_nat n)" if "n < length (fs_device s)" for n
  proof -
    from that assms(2) have "unat (of_nat n :: block_sector_t) = n"
      by (simp add: unat_of_nat)
    with that assms(3) [of "of_nat n"] show ?thesis by simp
  qed
  with assms(1) show ?thesis by (simp add: disk_image_def)
qed

lemma memcpy_whole_ok:
  "length dst = nat BLOCK_SECTOR_SIZE \<Longrightarrow> nat BLOCK_SECTOR_SIZE \<le> length src \<Longrightarrow>
   memcpy dst 0 src 0 BLOCK_SECTOR_SIZE = Inr (take (nat BLOCK_SECTOR_SIZE) src)"
  by (simp add: memcpy_def BLOCK_SECTOR_SIZE_def)

lemma get_disk_inode_spec:
  fixes s :: "'a fs_state_scheme"
  assumes inv: "bc_inv s" and t: "unat (sector i) < length (fs_device s)"
  shows "\<exists>s'. get_disk_inode s i =
      Inr (True, bytes_inode_disk (sector_view s (sector i)), s') \<and>
    bc_inv s' \<and> length (fs_device s') = length (fs_device s) \<and>
    (\<forall>u. unat u < length (fs_device s) \<longrightarrow> sector_view s' u = sector_view s u) \<and>
    bc_state.more s' = bc_state.more s"
proof -
  have m: "memcpy fresh_block 0 (sector_view s (sector i)) 0 BLOCK_SECTOR_SIZE =
      Inr (take (nat BLOCK_SECTOR_SIZE) (sector_view s (sector i)))"
    by (rule memcpy_whole_ok) (simp_all add: fresh_block_def view_length [OF inv t])
  from bc_read_spec [OF inv t m] show ?thesis
    by (auto simp: get_disk_inode_def bytes_inode_disk_take)
qed

text \<open>
  Claim C3. For an inode with \<open>deny_write_cnt > 0\<close>, \<^verbatim>\<open>inode_write_at\<close> returns 0, and
  afterwards every sector of the device has the contents it had (so the on-disk
  inode, with the length of the file, and every data sector are unchanged); the free
  map and the open inodes are unchanged as well. The buffer cache is in a state its
  operations keep (\<open>bc_inv\<close>) and the inode's sector is on the device.
\<close>

theorem inode_write_at_denied:
  fixes s :: "'a fs_state_scheme"
  assumes inv: "bc_inv s"
    and i: "inode_deref s inode = Inr i"
    and t: "unat (sector i) < length (fs_device s)"
    and deny: "deny_write_cnt i > 0"
  shows "\<exists>s'. inode_write_at s inode buffer size' offset = Inr (0, s') \<and>
    disk_image s' = disk_image s \<and> on_disk_length s' (sector i) = on_disk_length s (sector i) \<and>
    free_map s' = free_map s \<and> open_inodes s' = open_inodes s"
proof -
  obtain okm s1 where m: "malloc s = (okm, s1)" by (cases "malloc s")
  note mf = malloc_frame [OF m]
  have img1: "disk_image s1 = disk_image s"
    using mf by (simp add: disk_image_def sector_view_cong [OF mf(1) mf(3)])
  have len1: "on_disk_length s1 (sector i) = on_disk_length s (sector i)"
    by (simp add: on_disk_length_def sector_view_cong [OF mf(1) mf(3)])
  show ?thesis
  proof (cases okm)
    case False
    with m img1 len1 mf show ?thesis by (simp add: inode_write_at_def)
  next
    case True
    have i1: "inode_deref s1 inode = Inr i"
      using i inode_deref_cong [OF mf(5)] by simp
    have inv1: "bc_inv s1" using inv bc_inv_cong [OF mf(1-3)] by simp
    have t1: "unat (sector i) < length (fs_device s1)" using t mf by simp
    from get_disk_inode_spec [OF inv1 t1] obtain s2 where
      g: "get_disk_inode s1 i = Inr (True, bytes_inode_disk (sector_view s1 (sector i)), s2)"
      and dl: "length (fs_device s2) = length (fs_device s1)"
      and view: "\<forall>u. unat u < length (fs_device s1) \<longrightarrow> sector_view s2 u = sector_view s1 u"
      and more: "bc_state.more s2 = bc_state.more s1"
      by blast
    have w: "inode_write_at s inode buffer size' offset = Inr (0, s2)"
      using m True i1 g deny by (simp add: inode_write_at_def)
    have "disk_image s2 = disk_image s1"
      by (rule disk_image_eqI [OF dl bc_invD(2) [OF inv1]]) (use view in simp)
    moreover have "on_disk_length s2 (sector i) = on_disk_length s1 (sector i)"
      using view t1 by (simp add: on_disk_length_def)
    ultimately show ?thesis
      using w img1 len1 fs_more_eq [OF more] mf by simp
  qed
qed

lemma small_file_table [simp]: "length (direct_map_table small_file) = nat DIRECT_BLOCK_ENTRIES"
  by (simp add: small_file_def)

lemma small_file_bytes [simp]: "length (inode_disk_bytes small_file) = nat BLOCK_SECTOR_SIZE"
  by (rule length_inode_disk_bytes) simp

lemma small_file_decode [simp]: "bytes_inode_disk (inode_disk_bytes small_file) = small_file"
  using bytes_inode_disk_inode_disk_bytes [of small_file "[]"]
  by (simp add: small_file_def)

lemma small_fs_inv: "bc_inv (small_fs deny)"
  by (simp add: bc_inv_def small_fs_def head_ok_def empty_head_def fresh_block_def)

lemma small_fs_deref:
  "inode_deref (small_fs deny) (Some 1) =
    Inr \<lparr>sector = 1, open_cnt = 1, removed = False, deny_write_cnt = deny, extend_lock = False\<rparr>"
  by (simp add: inode_deref_def small_fs_def)

theorem inode_write_at_denied_witness:
  "\<exists>s'. inode_write_at (small_fs 1) (Some 1) [7, 7, 7] 3 2 = Inr (0, s') \<and>
     disk_image s' = disk_image (small_fs 1) \<and>
     on_disk_length s' 1 = on_disk_length (small_fs 1) 1 \<and>
     free_map s' = free_map (small_fs 1) \<and> open_inodes s' = open_inodes (small_fs 1)"
  using inode_write_at_denied [OF small_fs_inv small_fs_deref, of 1 "[7, 7, 7]" 3 2]
  by (simp add: small_fs_def)

lemmas run_defs =
  inode_write_at_def malloc_def small_fs_def inode_deref_def get_disk_inode_def
  bc_read_def bc_lookup_def empty_head_def bc_select_victim_def clock_sweep.simps
  bc_flush_entry_def block_write_def
  block_read_def memcpy_def fresh_block_def BLOCK_SECTOR_SIZE_def Let_def
  lock_acquire_def lock_release_def inode_store_def
  inode_write_loop.simps byte_to_sector_def locate_byte_def fresh_sector_location_def
  DIRECT_BLOCK_ENTRIES_def INDIRECT_BLOCK_ENTRIES_def array_get_def array_set_def bc_write_def
  inode_update_file_length_def update_file_length_loop.simps free_map_allocate_def
  free_map_release_def register_sector_def
  signed_modulo_int_def signed_divide_int_def int32_id
  small_file_def [THEN arg_cong [where f=length_field]]
  small_file_def [THEN arg_cong [where f=direct_map_table]]
  small_file_def [THEN arg_cong [where f=indirect_block_sec]]
  small_file_def [THEN arg_cong [where f=double_indirect_block_sec]]



text \<open>
  A write of 2147483647 bytes at offset 2 of the same file: \<open>offset + size - 1\<close> is
  \<open>2 ^ 31\<close>, which wraps to the least \<^verbatim>\<open>int\<close>, so the file does not grow and the loop
  writes the 8 bytes up to its end.
\<close>

lemma int32_wrapped: "int32 2147483648 = - 2147483648"
  by (simp add: int32_def)

lemma small_fs_write_wrapped:
  "\<exists>s'. inode_write_at (small_fs 0) (Some 1) (replicate 8 7) 2147483647 2 = Inr (8, s') \<and>
     on_disk_length s' 1 = 10"
  by (simp add: run_defs int32_wrapped on_disk_length_def sector_view_def)

subsection \<open>The extension lock\<close>

text \<open>
  Claim C10 says that \<^verbatim>\<open>inode_write_at\<close> returns with the extension lock as it found it
  on every path. On the path where \<^verbatim>\<open>inode_update_file_length\<close> fails it does not:
  with no free sector left, a one-byte write at offset 512 of the 10-byte file of
  \<open>small_fs\<close> returns 0 and leaves the lock, free at entry, held; the next write to
  the inode then waits for it forever.
\<close>

theorem inode_write_at_growth_failure_holds_lock:
  "\<exists>s'. inode_deref ((small_fs 0)\<lparr>free_map := [True, True, True, True]\<rparr>) (Some 1) =
       Inr \<lparr>sector = 1, open_cnt = 1, removed = False, deny_write_cnt = 0, extend_lock = False\<rparr> \<and>
     inode_write_at ((small_fs 0)\<lparr>free_map := [True, True, True, True]\<rparr>) (Some 1) [7] 1 512
        = Inr (0, s') \<and>
     inode_deref s' (Some 1) =
       Inr \<lparr>sector = 1, open_cnt = 1, removed = False, deny_write_cnt = 0, extend_lock = True\<rparr> \<and>
     inode_write_at s' (Some 1) [7] 1 0 = Inl Deadlock"
  by (simp add: run_defs)

lemma bytes_indirect_block_inode_disk_bytes:
  assumes "length (direct_map_table d) = nat DIRECT_BLOCK_ENTRIES"
  shows "bytes_indirect_block (inode_disk_bytes d @ rest) = inode_disk_words d"
proof (rule nth_equalityI)
  show "length (bytes_indirect_block (inode_disk_bytes d @ rest)) = length (inode_disk_words d)"
    using assms
    by (simp add: bytes_indirect_block_def INDIRECT_BLOCK_ENTRIES_def BLOCK_SECTOR_SIZE_def
        DIRECT_BLOCK_ENTRIES_def)
next
  fix k assume "k < length (bytes_indirect_block (inode_disk_bytes d @ rest))"
  then have k: "k < 128"
    by (simp add: bytes_indirect_block_def INDIRECT_BLOCK_ENTRIES_def BLOCK_SECTOR_SIZE_def)
  then have "word_at (inode_disk_bytes d @ rest) k = inode_disk_words d ! k"
    unfolding inode_disk_bytes_def using assms
    by (intro word_at_concat) (simp add: DIRECT_BLOCK_ENTRIES_def)
  with k show "bytes_indirect_block (inode_disk_bytes d @ rest) ! k = inode_disk_words d ! k"
    by (simp add: bytes_indirect_block_def INDIRECT_BLOCK_ENTRIES_def BLOCK_SECTOR_SIZE_def)
qed

lemma bytes_indirect_block_indirect_block_bytes:
  assumes "length tbl = nat INDIRECT_BLOCK_ENTRIES"
  shows "bytes_indirect_block (indirect_block_bytes tbl @ rest) = tbl"
proof (rule nth_equalityI)
  show "length (bytes_indirect_block (indirect_block_bytes tbl @ rest)) = length tbl"
    using assms by (simp add: bytes_indirect_block_def)
next
  fix k assume "k < length (bytes_indirect_block (indirect_block_bytes tbl @ rest))"
  then have k: "k < length tbl" using assms by (simp add: bytes_indirect_block_def)
  then show "bytes_indirect_block (indirect_block_bytes tbl @ rest) ! k = tbl ! k"
    using assms by (simp add: bytes_indirect_block_def indirect_block_bytes_def word_at_concat)
qed

lemma big_file_table [simp]: "length (direct_map_table big_file) = nat DIRECT_BLOCK_ENTRIES"
  by (simp add: big_file_def DIRECT_BLOCK_ENTRIES_def)

lemma free_map_inode_table [simp]:
  "length (direct_map_table free_map_inode) = nat DIRECT_BLOCK_ENTRIES"
  by (simp add: free_map_inode_def DIRECT_BLOCK_ENTRIES_def)

lemma release_entries_zero:
  "0 < n \<Longrightarrow> release_entries (replicate n 0 @ es) s = Inr s"
  by (cases n) simp_all

lemma big_file_bytes [simp]: "length (inode_disk_bytes big_file) = 512"
  using length_inode_disk_bytes [of big_file] by (simp add: BLOCK_SECTOR_SIZE_def)

lemma free_map_inode_bytes [simp]: "length (inode_disk_bytes free_map_inode) = 512"
  using length_inode_disk_bytes [of free_map_inode] by (simp add: BLOCK_SECTOR_SIZE_def)

lemma big_file_decode [simp]: "bytes_inode_disk (inode_disk_bytes big_file) = big_file"
  using bytes_inode_disk_inode_disk_bytes [of big_file "[]"]
  by (simp add: big_file_def [THEN arg_cong [where f=length_field]])

lemma free_map_inode_words [simp]:
  "bytes_indirect_block (inode_disk_bytes free_map_inode) = inode_disk_words free_map_inode"
  using bytes_indirect_block_inode_disk_bytes [of free_map_inode "[]"] by simp

lemma big_file_indirect_entry:
  "bytes_indirect_block (sector_view big_fs 125) ! 0 = 126"
  using bytes_indirect_block_indirect_block_bytes
    [of "(replicate (nat INDIRECT_BLOCK_ENTRIES) 0)[0 := 126]" "[]"]
  by (simp add: sector_view_def bc_lookup_def big_fs_def empty_head_def nth_append
      INDIRECT_BLOCK_ENTRIES_def BLOCK_SECTOR_SIZE_def)

lemmas close_defs =
  inode_close_def malloc_def big_fs_def inode_deref_def get_disk_inode_def inode_store_def
  bc_read_def bc_lookup_def empty_head_def bc_select_victim_def clock_sweep.simps
  bc_flush_entry_def block_write_def block_read_def memcpy_def fresh_block_def
  BLOCK_SECTOR_SIZE_def Let_def free_inode_sectors_def free_map_release_def
  inode_disk_words_def nth_append
  big_file_def [THEN arg_cong [where f=direct_map_table]]
  big_file_def [THEN arg_cong [where f=indirect_block_sec]]
  big_file_def [THEN arg_cong [where f=double_indirect_block_sec]]
  big_file_def [THEN arg_cong [where f=length_field]]
  big_file_def [THEN arg_cong [where f=magic]]
  big_file_def [THEN arg_cong [where f=is_dir]]
  free_map_inode_def [THEN arg_cong [where f=direct_map_table]]
  free_map_inode_def [THEN arg_cong [where f=indirect_block_sec]]
  free_map_inode_def [THEN arg_cong [where f=double_indirect_block_sec]]
  free_map_inode_def [THEN arg_cong [where f=length_field]]
  DIRECT_BLOCK_ENTRIES_def

subsection \<open>Releasing the sectors of a removed file\<close>

text \<open>
  Claim C2 says that closing the last opener of a removed inode releases every
  allocated sector of the file, the entries of the single-indirect block among them.
  In \<open>big_fs\<close> the single-indirect block of the file (sector 125) has the entry 126.
  \<^verbatim>\<open>inode_close\<close> releases the inode (sector 1), the direct sectors (2 to 124) and the
  single-indirect block itself (125), but sector 126 stays allocated: the branch for
  the single-indirect block reads \<^verbatim>\<open>double_indirect_block_sec\<close>, here 0, and so walks
  the inode of the free-map file in sector 0, whose first entry, sector 127, it
  releases instead.
\<close>

theorem inode_close_leaves_indirect_entries_allocated:
  "\<exists>s'. inode_close big_fs (Some 1) = Inr s' \<and>
     open_inodes s' = [] \<and>
     bytes_indirect_block (sector_view big_fs 125) ! 0 = 126 \<and>
     free_map s' ! 1 = False \<and> free_map s' ! 2 = False \<and> free_map s' ! 124 = False \<and>
     free_map s' ! 125 = False \<and>
     free_map s' ! 126 = True \<and>
     free_map s' ! 127 = False"
proof -
  have "\<exists>s'. inode_close big_fs (Some 1) = Inr s' \<and>
     open_inodes s' = [] \<and>
     free_map s' ! 1 = False \<and> free_map s' ! 2 = False \<and> free_map s' ! 124 = False \<and>
     free_map s' ! 125 = False \<and>
     free_map s' ! 126 = True \<and>
     free_map s' ! 127 = False"
    by (simp add: close_defs release_entries_zero)
  with big_file_indirect_entry show ?thesis by simp
qed

section \<open>Paths\<close>

lemmas path_defs =
  parse_path_def parse_path_loop.simps strtok_r_def strlcpy_def NAME_MAX_def
  ROOT_DIR_SECTOR_def dir_open_root_def dir_reopen_def dir_open_def dir_close_def
  dir_get_inode_def dir_entries_def dir_lookup_def dir_fs_def dir_fs_entries_def
  inode_open_def inode_reopen_def inode_deref_def inode_store_def inode_close_def
  inode_is_dir_def malloc_def Let_def

text \<open>
  Claim C5 says that \<^verbatim>\<open>parse_path\<close> gives the root directory and the leaf \<open>.\<close> for the
  empty string as for \<open>/\<close>. For the empty string it does not: the function returns
  \<^verbatim>\<open>NULL\<close> at its test \<^verbatim>\<open>strlen (path_name) == 0\<close>, before any directory is opened,
  and leaves \<^verbatim>\<open>file_name\<close> as it was.
\<close>

theorem parse_path_empty_string_fails:
  "parse_path (dir_fs []) (Some '''') (Some ''x'') = Inr (None, Some ''x'', dir_fs []) \<and>
   (\<exists>s'. parse_path (dir_fs []) (Some ''/'') (Some ''x'') =
      Inr (Some \<lparr>dir_inode = Some 1, dir_pos = 0\<rparr>, Some ''.'', s'))"
  by (simp add: path_defs)

text \<open>
  Claim C5, as the code has it. For the path \<open>/\<close>, \<^verbatim>\<open>parse_path\<close> returns what
  \<^verbatim>\<open>dir_open_root\<close> returns, the handle of the root directory, and stores \<open>.\<close> as the leaf
  name; for the empty path it returns \<^verbatim>\<open>NULL\<close>, with the state and the buffer
  \<^verbatim>\<open>file_name\<close> as they were.
\<close>

theorem parse_path_root:
  "parse_path s (Some ''/'') (Some buf) =
     ebind (dir_open_root s) (\<lambda>(dir, s1). Inr (dir, Some ''.'', s1)) \<and>
   parse_path s (Some '''') (Some buf) = Inr (None, Some buf, s)"
  by (auto simp: parse_path_def parse_path_loop.simps strtok_r_def strlcpy_def NAME_MAX_def
      intro!: ebind_cong)

text \<open>
  Claim C6 says that \<^verbatim>\<open>parse_path\<close> fails for every final token longer than
  \<^verbatim>\<open>NAME_MAX\<close>. For a final token of \<open>NAME_MAX + 1\<close> characters it does not: \<^verbatim>\<open>strlcpy\<close>
  returns the length of the token, 15, the test \<^verbatim>\<open>size > NAME_MAX + 1\<close> is false, and
  \<^verbatim>\<open>parse_path\<close> returns the directory with the first 14 characters of the token as
  the leaf name.
\<close>

theorem parse_path_accepts_name_max_plus_one:
  "\<exists>s'. length ''abcdefghijklmno'' = NAME_MAX + 1 \<and>
     parse_path (dir_fs []) (Some ''/abcdefghijklmno'') (Some []) =
       Inr (Some \<lparr>dir_inode = Some 1, dir_pos = 0\<rparr>, Some ''abcdefghijklmn'', s')"
  by (simp add: path_defs)

section \<open>Removing a directory\<close>

lemma dir_inode_disk_decode: "bytes_inode_disk (inode_disk_bytes dir_inode_disk) = dir_inode_disk"
  using bytes_inode_disk_inode_disk_bytes [of dir_inode_disk "[]"]
  by (simp add: dir_inode_disk_def DIRECT_BLOCK_ENTRIES_def)

lemma dir_inode_disk_length: "length (inode_disk_bytes dir_inode_disk) = 512"
  by (rule length_inode_disk_bytes_512) (simp add: dir_inode_disk_def)

lemmas remove_defs =
  filesys_remove_def inode_is_removed_def dir_remove_def inode_remove_def dir_readdir_def
  readdir_loop.simps get_disk_inode_def free_inode_sectors_def free_map_release_def
  inode_disk_words_def
  bc_read_def bc_lookup_def empty_head_def bc_select_victim_def clock_sweep.simps
  bc_flush_entry_def block_write_def block_read_def memcpy_def fresh_block_def
  BLOCK_SECTOR_SIZE_def DIRECT_BLOCK_ENTRIES_def
  dir_inode_disk_decode dir_inode_disk_length
  dir_inode_disk_def [THEN arg_cong [where f=direct_map_table]]
  dir_inode_disk_def [THEN arg_cong [where f=is_dir]]
  dir_inode_disk_def [THEN arg_cong [where f=indirect_block_sec]]
  dir_inode_disk_def [THEN arg_cong [where f=double_indirect_block_sec]]
  release_entries_zero

text \<open>
  With every allocation served, \<^verbatim>\<open>filesys_remove\<close> refuses the directory \<open>a\<close> of
  \<open>dir_fs\<close>, which holds the file \<open>f\<close>, and removes the directory \<open>e\<close>, which holds \<open>.\<close>
  and \<open>..\<close> only: the entry of \<open>e\<close> in the root directory is no longer in use and the
  sector of its inode is free.
\<close>

lemma filesys_remove_refuses_directory_with_entries:
  "\<exists>s'. filesys_remove (dir_fs []) ''/a'' = Inr (False, s') \<and>
     dir_data s' = dir_data (dir_fs []) \<and> free_map s' = free_map (dir_fs []) \<and>
     open_inodes s' = open_inodes (dir_fs [])"
  by (simp add: path_defs remove_defs)

lemma filesys_remove_removes_empty_directory:
  "\<exists>s'. filesys_remove (dir_fs []) ''/e'' = Inr (True, s') \<and>
     map entry_in_use (dir_data s' 1) = [True, True, True, False] \<and>
     free_map s' = [True, True, True, True, False, False, False, False]"
  by (simp add: path_defs remove_defs)

text \<open>
  Claim C9 says that \<^verbatim>\<open>filesys_remove\<close> returns false and removes nothing for every
  directory with an entry other than \<open>.\<close> and \<open>..\<close>. When the allocation in
  \<^verbatim>\<open>inode_is_dir\<close> fails it does not: \<^verbatim>\<open>inode_is_dir\<close> then returns false, \<^verbatim>\<open>filesys_remove\<close>
  takes the target for a file and calls \<^verbatim>\<open>dir_remove\<close> without having read the
  directory. In \<open>dir_fs\<close>, with the third allocation of the call failing, the
  directory \<open>a\<close> is removed although it holds the file \<open>f\<close>: the call returns true, the
  entry of \<open>a\<close> in the root directory is no longer in use, and the sector of the
  inode of \<open>a\<close> is free, while the entry of \<open>f\<close> is still in use in the array of \<open>a\<close>.
\<close>

theorem filesys_remove_removes_directory_with_entries:
  "\<exists>s'. filesys_remove (dir_fs [True, True, False]) ''/a'' = Inr (True, s') \<and>
     map entry_in_use (dir_data s' 1) = [True, True, False, True] \<and>
     free_map s' = [True, True, False, True, True, False, False, False] \<and>
     map entry_name (filter entry_in_use (dir_data s' 2)) = [''.'', ''..'', ''f'']"
  by (simp add: path_defs remove_defs)

section \<open>Frames of the allocation path\<close>

lemma fold_update_length:
  "length (fold (\<lambda>j fm. fm[j := b]) js fm) = length fm"
  by (induction js arbitrary: fm) simp_all

lemma malloc_keeps: "malloc s = (ok, s1) \<Longrightarrow> fs_shape s1 = fs_shape s"
  by (auto simp: malloc_def fs_shape_def split: list.splits)

lemma free_map_allocate_keeps: "free_map_allocate s n = (r, s1) \<Longrightarrow> fs_shape s1 = fs_shape s"
  by (auto simp: free_map_allocate_def fold_update_length fs_shape_def split: option.splits)

lemma free_map_release_keeps [simp]: "fs_shape (free_map_release s sec n) = fs_shape s"
  by (simp add: free_map_release_def fold_update_length fs_shape_def)

lemma bc_write_keeps:
  fixes s :: "'a fs_state_scheme"
  assumes "bc_write s sec buffer buffer_ofs n sector_ofs = Inr (ok, s')"
  shows "fs_shape s' = fs_shape s"
proof -
  from bc_write_result [OF assms] have m: "bc_state.more s' = bc_state.more s" by simp
  from fs_more_eq [OF m] show ?thesis by (simp add: fs_shape_def)
qed

lemma bc_read_keeps:
  fixes s :: "'a fs_state_scheme"
  assumes "bc_read s sec buffer buffer_ofs n sector_ofs = Inr (ok, buffer', s')"
  shows "fs_shape s' = fs_shape s"
proof -
  from bc_read_result [OF assms] have m: "bc_state.more s' = bc_state.more s" by simp
  from fs_more_eq [OF m] show ?thesis by (simp add: fs_shape_def)
qed

lemma register_sector_keeps:
  fixes s :: "'a fs_state_scheme"
  assumes "register_sector s d new_sector loc = Inr (ok, d', s')"
  shows "fs_shape s' = fs_shape s"
proof (cases "directness loc")
  case NORMAL_DIRECT
  with assms show ?thesis
    by (auto simp: register_sector_def elim!: ebind_InrE)
next
  case INDIRECT
  obtain okm s1 where m: "malloc s = (okm, s1)" by (cases "malloc s")
  note k1 = malloc_keeps [OF m]
  show ?thesis
  proof (cases okm)
    case False
    with assms INDIRECT m k1 show ?thesis by (simp add: register_sector_def)
  next
    case True
    show ?thesis
    proof (cases "indirect_block_sec d = 0")
      case z: True
      obtain r s2 where a: "free_map_allocate s1 1 = (r, s2)" by (cases "free_map_allocate s1 1")
      note k2 = free_map_allocate_keeps [OF a]
      from assms INDIRECT m True z a k1 k2 show ?thesis
        by (cases r) (auto simp: register_sector_def elim!: ebind_InrE dest!: bc_write_keeps)
    next
      case nz: False
      from assms INDIRECT m True nz k1 show ?thesis
        by (auto simp: register_sector_def elim!: ebind_InrE dest!: bc_write_keeps)
    qed
  qed
next
  case DOUBLE_INDIRECT
  with assms show ?thesis
    by (auto simp: register_sector_def elim!: ebind_InrE
        dest!: malloc_keeps free_map_allocate_keeps bc_write_keeps bc_read_keeps
        split: prod.splits bool.splits option.splits if_splits)
next
  case OUT_LIMIT
  with assms show ?thesis by (simp add: register_sector_def)
qed


lemma byte_to_sector_keeps:
  fixes s :: "'a fs_state_scheme"
  assumes "byte_to_sector s d pos = Inr (sec, s')"
  shows "fs_shape s' = fs_shape s"
proof (cases "pos < length_field d")
  case False
  with assms show ?thesis by (simp add: byte_to_sector_def)
next
  case True
  show ?thesis
  proof (cases "directness (locate_byte pos fresh_sector_location)")
    case NORMAL_DIRECT
    with assms True show ?thesis
      by (auto simp: byte_to_sector_def Let_def elim!: ebind_InrE)
  next
    case INDIRECT
    with assms True show ?thesis
      by (auto simp: byte_to_sector_def Let_def elim!: ebind_InrE
          dest!: malloc_keeps bc_read_keeps split: prod.splits bool.splits if_splits)
  next
    case DOUBLE_INDIRECT
    with assms True show ?thesis
      by (auto simp: byte_to_sector_def Let_def elim!: ebind_InrE
          dest!: malloc_keeps bc_read_keeps split: prod.splits bool.splits if_splits)
  next
    case OUT_LIMIT
    with assms True show ?thesis by (simp add: byte_to_sector_def Let_def)
  qed
qed

lemma update_file_length_loop_keeps:
  "update_file_length_loop s d zeroes offset size' = Inr (ok, d', s') \<Longrightarrow>
   fs_shape s' = fs_shape s"
proof (induction s d zeroes offset size' arbitrary: ok d' s' rule: update_file_length_loop.induct)
  case (1 s inode_disk zeroes offset size')
  note run = "1.prems" [unfolded update_file_length_loop.simps [of s inode_disk zeroes offset size']
      Let_def]
  show ?case
  proof (cases "size' > 0 \<and>
      \<not> (if size' < BLOCK_SECTOR_SIZE - offset smod BLOCK_SECTOR_SIZE then size'
         else BLOCK_SECTOR_SIZE - offset smod BLOCK_SECTOR_SIZE) \<le> 0")
    case False
    with run show ?thesis by (auto split: if_splits)
  next
    case go: True
    show ?thesis
    proof (cases "offset smod BLOCK_SECTOR_SIZE > 0")
      case True
      with run go obtain x where
        b: "byte_to_sector s inode_disk offset = Inr x"
        and r1: "(case x of (sector_idx, s1) \<Rightarrow>
           if sector_idx = 0 then Inl Panic
           else ebind (bc_write s1 sector_idx zeroes 0
                  (BLOCK_SECTOR_SIZE - offset smod BLOCK_SECTOR_SIZE)
                  (offset smod BLOCK_SECTOR_SIZE))
                (\<lambda>(ok, s2). update_file_length_loop s2 inode_disk zeroes
                   (offset + (if size' < BLOCK_SECTOR_SIZE - offset smod BLOCK_SECTOR_SIZE then size'
                      else BLOCK_SECTOR_SIZE - offset smod BLOCK_SECTOR_SIZE))
                   (size' - (if size' < BLOCK_SECTOR_SIZE - offset smod BLOCK_SECTOR_SIZE then size'
                      else BLOCK_SECTOR_SIZE - offset smod BLOCK_SECTOR_SIZE)))) = Inr (ok, d', s')"
        by (auto elim!: ebind_InrE)
      obtain sector_idx s1 where x: "x = (sector_idx, s1)" by (cases x)
      from r1 x have nz: "sector_idx \<noteq> 0" by (auto split: if_splits)
      from r1 x nz obtain y where
        w: "bc_write s1 sector_idx zeroes 0 (BLOCK_SECTOR_SIZE - offset smod BLOCK_SECTOR_SIZE)
              (offset smod BLOCK_SECTOR_SIZE) = Inr y"
        and r2: "(case y of (ok, s2) \<Rightarrow> update_file_length_loop s2 inode_disk zeroes
                   (offset + (if size' < BLOCK_SECTOR_SIZE - offset smod BLOCK_SECTOR_SIZE then size'
                      else BLOCK_SECTOR_SIZE - offset smod BLOCK_SECTOR_SIZE))
                   (size' - (if size' < BLOCK_SECTOR_SIZE - offset smod BLOCK_SECTOR_SIZE then size'
                      else BLOCK_SECTOR_SIZE - offset smod BLOCK_SECTOR_SIZE))) = Inr (ok, d', s')"
        by (auto elim!: ebind_InrE)
      obtain ok1 s2 where y: "y = (ok1, s2)" by (cases y)
      have "fs_shape s' = fs_shape s2"
        using go True b x nz w y r2
        by (intro "1.IH"(1) [OF _ refl refl refl _ _ b x [symmetric] nz w y [symmetric]]) simp_all
      moreover have "fs_shape s1 = fs_shape s"
        using b [unfolded x] by (rule byte_to_sector_keeps)
      moreover have "fs_shape s2 = fs_shape s1"
        using w [unfolded y] by (rule bc_write_keeps)
      ultimately show ?thesis by simp
    next
      case False
      obtain r s1 where a0: "free_map_allocate s 1 = (r, s1)"
        by (cases "free_map_allocate s 1")
      show ?thesis
      proof (cases r)
        case None
        with run go False a0 free_map_allocate_keeps [OF a0] show ?thesis by auto
      next
        case (Some sector_idx)
        with a0 have a: "free_map_allocate s 1 = (Some sector_idx, s1)" by simp
      from run go False a obtain x where
        reg: "register_sector s1 inode_disk sector_idx
                (locate_byte offset fresh_sector_location) = Inr x"
        and r1: "(case x of (ok1, d1, s2) \<Rightarrow>
           if \<not> ok1 then Inr (False, d1, free_map_release s2 sector_idx 1)
           else ebind (bc_write s2 sector_idx zeroes 0 BLOCK_SECTOR_SIZE 0)
                (\<lambda>(ok', s3). update_file_length_loop s3 d1 zeroes
                   (offset + (if size' < BLOCK_SECTOR_SIZE - offset smod BLOCK_SECTOR_SIZE then size'
                      else BLOCK_SECTOR_SIZE - offset smod BLOCK_SECTOR_SIZE))
                   (size' - (if size' < BLOCK_SECTOR_SIZE - offset smod BLOCK_SECTOR_SIZE then size'
                      else BLOCK_SECTOR_SIZE - offset smod BLOCK_SECTOR_SIZE)))) = Inr (ok, d', s')"
        by (auto elim!: ebind_InrE)
      obtain ok1 d1 s2 where x: "x = (ok1, d1, s2)" by (cases x)
      note f1 = register_sector_keeps [OF reg [unfolded x]]
      note f0 = free_map_allocate_keeps [OF a]
      show ?thesis
      proof (cases ok1)
        case ok1f: False
        with r1 x f1 f0 show ?thesis by auto
      next
        case ok1t: True
        with r1 x obtain y where
          w: "bc_write s2 sector_idx zeroes 0 BLOCK_SECTOR_SIZE 0 = Inr y"
          and r2: "(case y of (ok', s3) \<Rightarrow> update_file_length_loop s3 d1 zeroes
                   (offset + (if size' < BLOCK_SECTOR_SIZE - offset smod BLOCK_SECTOR_SIZE then size'
                      else BLOCK_SECTOR_SIZE - offset smod BLOCK_SECTOR_SIZE))
                   (size' - (if size' < BLOCK_SECTOR_SIZE - offset smod BLOCK_SECTOR_SIZE then size'
                      else BLOCK_SECTOR_SIZE - offset smod BLOCK_SECTOR_SIZE))) = Inr (ok, d', s')"
          by (auto elim!: ebind_InrE)
        obtain ok2 s3 where y: "y = (ok2, s3)" by (cases y)
        have "fs_shape s' = fs_shape s3"
          using go False ok1t r2 y
          by (intro "1.IH"(2) [OF _ refl refl refl _ _ a [symmetric] refl reg x [symmetric] _ _ w y [symmetric]])
            simp_all
        with f1 f0 bc_write_keeps [OF w [unfolded y]] show ?thesis by simp
      qed
      qed
    qed
  qed
qed


lemma inode_update_file_length_keeps:
  assumes "inode_update_file_length s d start_pos end_pos = Inr (ok, d', s')"
  shows "fs_shape s' = fs_shape s"
proof (cases "malloc s")
  case (Pair okm s1)
  note k = malloc_keeps [OF Pair]
  show ?thesis
  proof (cases okm)
    case True
    with assms Pair have "update_file_length_loop s1 d fresh_block start_pos
        (end_pos - start_pos + 1) = Inr (ok, d', s')"
      by (auto simp: inode_update_file_length_def split: if_splits)
    from update_file_length_loop_keeps [OF this] k show ?thesis by simp
  next
    case False
    with assms Pair k show ?thesis
      by (auto simp: inode_update_file_length_def split: if_splits)
  qed
qed

lemma inode_create_keeps:
  fixes s :: "'a fs_state_scheme"
  assumes "inode_create s sec len isdir = Inr (ok, s')"
  shows "fs_shape s' = fs_shape s"
proof (cases "malloc s")
  case (Pair okm s1)
  note k = malloc_keeps [OF Pair]
  show ?thesis
  proof (cases okm)
    case False
    with assms Pair k show ?thesis
      by (auto simp: inode_create_def split: if_splits)
  next
    case True
    with assms Pair k show ?thesis
      by (auto simp: inode_create_def Let_def elim!: ebind_InrE
          dest!: inode_update_file_length_keeps bc_write_keeps split: if_splits)
  qed
qed

lemma inode_create_empty_keeps_free_map:
  fixes s :: "'a fs_state_scheme"
  assumes "inode_create s sec 0 isdir = Inr (ok, s')"
  shows "free_map s' = free_map s"
proof (cases "malloc s")
  case (Pair okm s1)
  note k = malloc_frame [OF Pair]
  show ?thesis
  proof (cases okm)
    case False
    with assms Pair k show ?thesis
      by (auto simp: inode_create_def split: if_splits)
  next
    case True
    with assms Pair k show ?thesis
      by (auto simp: inode_create_def Let_def elim!: ebind_InrE
          dest!: bc_write_result fs_more_eq(2))
  qed
qed


section \<open>Handles and open counts\<close>


lemma inode_deref_mem:
  assumes "inode_deref s p = Inr i"
  shows "i \<in> set (open_inodes s) \<and> p = Some (sector i)"
  using assms
  by (auto simp: inode_deref_def find_Some_iff split: option.splits)


lemma count_list_remove1:
  "count_list (remove1 x xs) y =
    (if x = y \<and> x \<in> set xs then count_list xs y - 1 else count_list xs y)"
  by (induction xs) auto


lemma handles_counted_cong:
  "open_inodes s' = open_inodes s \<Longrightarrow> handles_counted s' hs = handles_counted s hs"
  by (simp add: handles_counted_def)


lemma handles_counted_mem:
  assumes "handles_counted s hs" and "i \<in> set (open_inodes s)"
  shows "(if removed i then 1 + int (count_list hs (Some (sector i))) else 1) \<le> open_cnt i"
  using assms unfolding handles_counted_def list_all_iff by blast


lemma handles_counted_drop:
  assumes "handles_counted s (h # hs)"
  shows "handles_counted s hs"
  unfolding handles_counted_def list_all_iff
proof
  fix i assume "i \<in> set (open_inodes s)"
  from handles_counted_mem [OF assms this]
  have b: "(if removed i then 1 + int (count_list (h # hs) (Some (sector i))) else 1) \<le> open_cnt i" .
  have "count_list hs (Some (sector i)) \<le> count_list (h # hs) (Some (sector i))" by simp
  then have "int (count_list hs (Some (sector i))) \<le> int (count_list (h # hs) (Some (sector i)))"
    by (rule iffD2 [OF of_nat_le_iff])
  with b show "(if removed i then 1 + int (count_list hs (Some (sector i))) else 1) \<le> open_cnt i"
    by (cases "removed i") simp_all
qed


lemma handles_counted_null:
  assumes "handles_counted s hs"
  shows "handles_counted s (None # hs)"
  unfolding handles_counted_def list_all_iff
proof
  fix i assume "i \<in> set (open_inodes s)"
  from handles_counted_mem [OF assms this]
  show "(if removed i then 1 + int (count_list (None # hs) (Some (sector i))) else 1) \<le> open_cnt i"
    by (cases "removed i") simp_all
qed


lemma inode_reopen_counted:
  assumes hc: "handles_counted s hs" and run: "inode_reopen s p = Inr (q, s')"
  shows "free_map s' = free_map s \<and> handles_counted s' (q # hs)"
proof (cases p)
  case None
  with run hc show ?thesis by (simp add: inode_reopen_def handles_counted_null)
next
  case (Some sec)
  with run obtain i where i: "inode_deref s p = Inr i" and q: "q = p"
    and s': "s' = inode_store s (i\<lparr>open_cnt := open_cnt i + 1\<rparr>)"
    by (auto simp: inode_reopen_def elim!: ebind_InrE)
  from inode_deref_mem [OF i] have mem: "i \<in> set (open_inodes s)" and p: "p = Some (sector i)"
    by simp_all
  note bi = handles_counted_mem [OF hc mem]
  have "handles_counted s' (q # hs)"
    unfolding handles_counted_def list_all_iff
  proof
    fix j assume "j \<in> set (open_inodes s')"
    with s' obtain j0 where j0: "j0 \<in> set (open_inodes s)"
      and j: "j = (if sector j0 = sector i then i\<lparr>open_cnt := open_cnt i + 1\<rparr> else j0)"
      by (auto simp: inode_store_def)
    show "(if removed j then 1 + int (count_list (q # hs) (Some (sector j))) else 1) \<le> open_cnt j"
    proof (cases "sector j0 = sector i")
      case True
      with j have "j = i\<lparr>open_cnt := open_cnt i + 1\<rparr>" by simp
      with bi show ?thesis by (cases "removed i") (simp_all add: q p)
    next
      case False
      with j have "j = j0" by simp
      with False handles_counted_mem [OF hc j0] show ?thesis
        by (cases "removed j0") (simp_all add: q p)
    qed
  qed
  with s' show ?thesis by simp
qed


lemma inode_open_counted:
  assumes hc: "handles_counted s hs" and run: "inode_open s sec = Inr (q, s')"
  shows "free_map s' = free_map s \<and> handles_counted s' (q # hs)"
proof (cases "find (\<lambda>i. sector i = sec) (open_inodes s)")
  case (Some i)
  with run have "inode_reopen s (Some sec) = Inr (q, s')"
    by (simp add: inode_open_def)
  from inode_reopen_counted [OF hc this] show ?thesis .
next
  case None
  then have fresh: "\<forall>j \<in> set (open_inodes s). sector j \<noteq> sec"
    by (auto simp: find_None_iff)
  obtain okm s1 where m: "malloc s = (okm, s1)" by (cases "malloc s")
  note k = malloc_frame [OF m]
  show ?thesis
  proof (cases okm)
    case False
    with run None m have "q = None" "s' = s1" by (auto simp: inode_open_def)
    with k handles_counted_null [OF hc] show ?thesis
      by (simp add: handles_counted_cong [OF k(5)])
  next
    case True
    with run None m have q: "q = Some sec"
      and s': "s' = s1\<lparr>open_inodes :=
                        \<lparr>sector = sec, open_cnt = 1, removed = False, deny_write_cnt = 0,
                         extend_lock = False\<rparr> # open_inodes s1\<rparr>"
      by (auto simp: inode_open_def)
    have "handles_counted s' (q # hs)"
      unfolding handles_counted_def list_all_iff
    proof
      fix j assume "j \<in> set (open_inodes s')"
      with s' k have "j = \<lparr>sector = sec, open_cnt = 1, removed = False, deny_write_cnt = 0,
                         extend_lock = False\<rparr> \<or> j \<in> set (open_inodes s)"
        by auto
      then show "(if removed j then 1 + int (count_list (q # hs) (Some (sector j))) else 1)
          \<le> open_cnt j"
      proof
        assume "j = \<lparr>sector = sec, open_cnt = 1, removed = False, deny_write_cnt = 0,
                         extend_lock = False\<rparr>"
        then show ?thesis by simp
      next
        assume j: "j \<in> set (open_inodes s)"
        with fresh have "sector j \<noteq> sec" by blast
        with handles_counted_mem [OF hc j] show ?thesis
          by (cases "removed j") (simp_all add: q)
      qed
    qed
    with s' k show ?thesis by simp
  qed
qed


lemma inode_close_counted:
  assumes hc: "handles_counted s hs" and held: "p \<in> set hs"
    and run: "inode_close s p = Inr s'"
  shows "free_map s' = free_map s \<and> handles_counted s' (remove1 p hs)"
proof (cases p)
  case None
  with run have s': "s' = s" by (simp add: inode_close_def)
  have "handles_counted s (remove1 None hs)"
    unfolding handles_counted_def list_all_iff
  proof
    fix i assume "i \<in> set (open_inodes s)"
    from handles_counted_mem [OF hc this]
    show "(if removed i then 1 + int (count_list (remove1 None hs) (Some (sector i))) else 1)
        \<le> open_cnt i"
      by (cases "removed i") (simp_all add: count_list_remove1)
  qed
  with s' None show ?thesis by simp
next
  case (Some sec)
  with run obtain i0 where i0: "inode_deref s p = Inr i0"
    and r: "(let i = i0\<lparr>open_cnt := open_cnt i0 - 1\<rparr>;
                s1 = inode_store s i
            in if open_cnt i = 0 then
                 (let s2 = s1\<lparr>open_inodes := filter (\<lambda>j. sector j \<noteq> sec) (open_inodes s1)\<rparr>
                  in if removed i then
                       (case malloc s2 of
                          (False, s3) \<Rightarrow> Inl Panic
                        | (True, s3) \<Rightarrow>
                            ebind (get_disk_inode s3 i) (\<lambda>(ok, disk_inode, s4).
                            ebind (free_inode_sectors s4 disk_inode) (\<lambda>s5.
                              Inr (free_map_release s5 (sector i) 1))))
                     else Inr s2)
               else Inr s1) = (Inr s' :: error + _)"
    by (auto simp: inode_close_def elim!: ebind_InrE)
  from inode_deref_mem [OF i0] have mem: "i0 \<in> set (open_inodes s)"
    and p: "p = Some (sector i0)" by simp_all
  from p Some have sec: "sec = sector i0" by simp
  note b0 = handles_counted_mem [OF hc mem]
  from held p have "count_list hs (Some (sector i0)) \<noteq> 0"
    by (simp add: count_list_0_iff)
  then have held1: "1 \<le> int (count_list hs (Some (sector i0)))" by simp
  with b0 have two: "removed i0 \<Longrightarrow> 2 \<le> open_cnt i0" by simp
  from b0 have one: "1 \<le> open_cnt i0" by (cases "removed i0") simp_all
  define i where "i = i0\<lparr>open_cnt := open_cnt i0 - 1\<rparr>"
  define s1 where "s1 = inode_store s i"
  define s2 where "s2 = s1\<lparr>open_inodes := filter (\<lambda>j. sector j \<noteq> sector i0) (open_inodes s1)\<rparr>"
  have rest: "(if removed j then 1 + int (count_list (remove1 p hs) (Some (sector j))) else 1)
      \<le> open_cnt j" if "j \<in> set (open_inodes s)" "sector j \<noteq> sector i0" for j
    using handles_counted_mem [OF hc that(1)] that(2)
    by (cases "removed j") (simp_all add: count_list_remove1 p)
  have s1_mem: "j = i \<or> (j \<in> set (open_inodes s) \<and> sector j \<noteq> sector i0)"
    if "j \<in> set (open_inodes s1)" for j
    using that by (auto simp: s1_def inode_store_def i_def)
  show ?thesis
  proof (cases "open_cnt i0 = 1")
    case False
    with r have s': "s' = s1" by (simp add: Let_def s1_def i_def)
    have "handles_counted s1 (remove1 p hs)"
      unfolding handles_counted_def list_all_iff
    proof
      fix j assume "j \<in> set (open_inodes s1)"
      from s1_mem [OF this]
      show "(if removed j then 1 + int (count_list (remove1 p hs) (Some (sector j))) else 1)
          \<le> open_cnt j"
      proof
        assume "j = i"
        with b0 False one held held1 show ?thesis
          by (cases "removed i0") (simp_all add: i_def count_list_remove1 p)
      next
        assume "j \<in> set (open_inodes s) \<and> sector j \<noteq> sector i0"
        then show ?thesis using rest by blast
      qed
    qed
    with s' show ?thesis by (simp add: s1_def)
  next
    case True
    with two have nr: "\<not> removed i0" by auto
    from r True nr have s': "s' = s2"
      by (simp add: Let_def s2_def s1_def i_def sec)
    have "handles_counted s2 (remove1 p hs)"
      unfolding handles_counted_def list_all_iff
    proof
      fix j assume "j \<in> set (open_inodes s2)"
      then have "j \<in> set (open_inodes s1)" and ne: "sector j \<noteq> sector i0"
        by (simp_all add: s2_def)
      from s1_mem [OF this(1)] ne have "j \<in> set (open_inodes s) \<and> sector j \<noteq> sector i0"
        by (auto simp: i_def)
      then show "(if removed j then 1 + int (count_list (remove1 p hs) (Some (sector j))) else 1)
          \<le> open_cnt j" using rest by blast
    qed
    with s' show ?thesis by (simp add: s2_def s1_def)
  qed
qed


lemma inode_is_dir_quiet:
  fixes s :: "'a fs_state_scheme"
  assumes "inode_is_dir s p = Inr (b, s')"
  shows "free_map s' = free_map s \<and> open_inodes s' = open_inodes s"
proof -
  obtain okm s1 where m: "malloc s = (okm, s1)" by (cases "malloc s")
  note k = malloc_frame [OF m]
  show ?thesis
  proof (cases okm)
    case False
    with assms m k show ?thesis by (simp add: inode_is_dir_def)
  next
    case True
    with assms m obtain i :: inode and ok buf where
      "bc_read s1 (sector i) fresh_block 0 BLOCK_SECTOR_SIZE 0 = Inr (ok, buf, s')"
      by (auto simp: inode_is_dir_def elim!: ebind_InrE)
    from bc_read_result [OF this] have "bc_state.more s' = bc_state.more s1" by simp
    from fs_more_eq [OF this] k show ?thesis by simp
  qed
qed



lemma handle_inode_dir_open [simp]: "handle_inode (dir_open inode) = inode"
  by (simp add: handle_inode_def dir_open_def split: option.splits)


lemma dir_close_counted:
  assumes "handles_counted s hs" and "handle_inode dir \<in> set hs" and "dir_close s dir = Inr s'"
  shows "free_map s' = free_map s \<and> handles_counted s' (remove1 (handle_inode dir) hs)"
proof -
  from assms(3) have "inode_close s (handle_inode dir) = Inr s'"
    by (simp add: dir_close_def handle_inode_def inode_close_def split: option.splits)
  from inode_close_counted [OF assms(1,2) this] show ?thesis .
qed


lemma dir_lookup_counted:
  assumes "handles_counted s hs" and "dir_lookup s dir nm = Inr (found, inode, s')"
  shows "free_map s' = free_map s \<and> handles_counted s' (inode # hs)"
proof -
  from assms(2) obtain entries :: "dir_entry list" where
    r: "(case find (\<lambda>e. entry_in_use e \<and> entry_name e = nm) entries of
        None \<Rightarrow> Inr (False, None, s)
      | Some e \<Rightarrow>
          ebind (inode_open s (entry_inode_sector e)) (\<lambda>(inode, s1).
            Inr (inode \<noteq> None, inode, s1))) = (Inr (found, inode, s') :: error + _)"
    by (auto simp: dir_lookup_def elim!: ebind_InrE)
  show ?thesis
  proof (cases "find (\<lambda>e. entry_in_use e \<and> entry_name e = nm) entries")
    case None
    with r assms(1) show ?thesis by (simp add: handles_counted_null)
  next
    case (Some e)
    with r have "inode_open s (entry_inode_sector e) = Inr (inode, s')"
      by (auto elim!: ebind_InrE)
    from inode_open_counted [OF assms(1) this] show ?thesis .
  qed
qed


lemma dir_open_root_counted:
  assumes "handles_counted s hs" and "dir_open_root s = Inr (dir, s')"
  shows "free_map s' = free_map s \<and> handles_counted s' (handle_inode dir # hs)"
proof -
  from assms(2) obtain inode where o: "inode_open s ROOT_DIR_SECTOR = Inr (inode, s')"
    and dir: "dir = dir_open inode"
    by (auto simp: dir_open_root_def elim!: ebind_InrE)
  from inode_open_counted [OF assms(1) o] dir show ?thesis by simp
qed


lemma dir_reopen_counted:
  assumes "handles_counted s hs" and "dir_reopen s d = Inr (dir, s')"
  shows "free_map s' = free_map s \<and> handles_counted s' (handle_inode dir # hs)"
proof (cases d)
  case None
  with assms show ?thesis by (simp add: dir_reopen_def)
next
  case (Some d0)
  with assms(2) obtain inode where o: "inode_reopen s (dir_inode d0) = Inr (inode, s')"
    and dir: "dir = dir_open inode"
    by (auto simp: dir_reopen_def elim!: ebind_InrE)
  from inode_reopen_counted [OF assms(1) o] dir show ?thesis by simp
qed


text \<open>
  Path resolution holds one handle at a time, and two between the lookup of a
  component and the closing of its parent; it ends holding the handle it returns.
  The handles it leaves open when it returns \<^verbatim>\<open>NULL\<close> are not counted.
\<close>


lemma parse_path_loop_counted:
  "handles_counted s [handle_inode dir] \<Longrightarrow>
   parse_path_loop s dir token nextToken savePtr = Inr (r, s') \<Longrightarrow>
   free_map s' = free_map s \<and>
   handles_counted s' (case r of None \<Rightarrow> [] | Some (dir', token') \<Rightarrow> [handle_inode dir'])"
proof (induction s dir token nextToken savePtr arbitrary: r s' rule: parse_path_loop.induct)
  case (1 s dir token nextToken savePtr)
  note run = "1.prems"(2) [unfolded parse_path_loop.simps [of s dir token nextToken savePtr]]
  show ?case
  proof (cases "token = None \<or> nextToken = None")
    case True
    with run have "r = Some (dir, token)" "s' = s" by (auto split: option.splits)
    with "1.prems"(1) show ?thesis by simp
  next
    case False
    then obtain tok next_tok where tok: "token = Some tok" and ntok: "nextToken = Some next_tok"
      by auto
    from run tok ntok obtain success inode s1 isdir s2 where
      lk: "dir_lookup s dir tok = Inr (success, inode, s1)"
      and isd: "(if success then inode_is_dir s1 inode else Inr (False, s1)) = Inr (isdir, s2)"
      and r2: "(if \<not> success \<or> \<not> isdir then Inr (None, s2)
           else
             (let nextDir = dir_open inode
              in ebind (dir_close s2 dir) (\<lambda>s3.
                   case strtok_r savePtr ''/'' of
                     (nextToken', savePtr') \<Rightarrow>
                       parse_path_loop s3 nextDir nextToken nextToken' savePtr')))
           = (Inr (r, s') :: error + _)"
      by (auto elim!: ebind_InrE)
    from dir_lookup_counted [OF "1.prems"(1) lk]
    have f1: "free_map s1 = free_map s" and c1: "handles_counted s1 [inode, handle_inode dir]"
      by simp_all
    have f2: "free_map s2 = free_map s1" and c2: "handles_counted s2 [inode, handle_inode dir]"
    proof -
      have "free_map s2 = free_map s1 \<and> open_inodes s2 = open_inodes s1"
      proof (cases success)
        case True
        with isd have "inode_is_dir s1 inode = Inr (isdir, s2)" by simp
        from inode_is_dir_quiet [OF this] show ?thesis .
      next
        case False
        with isd show ?thesis by simp
      qed
      with c1 handles_counted_cong [of s2 s1 "[inode, handle_inode dir]"]
      show "free_map s2 = free_map s1" "handles_counted s2 [inode, handle_inode dir]"
        by simp_all
    qed
    show ?thesis
    proof (cases "\<not> success \<or> \<not> isdir")
      case True
      with r2 have "r = None" "s' = s2" by (simp_all split: if_splits)
      with f1 f2 handles_counted_drop [OF handles_counted_drop [OF c2]] show ?thesis by simp
    next
      case go: False
      with r2 obtain s3 where cl: "dir_close s2 dir = Inr s3"
        and r3: "(case strtok_r savePtr ''/'' of
                     (nextToken', savePtr') \<Rightarrow>
                       parse_path_loop s3 (dir_open inode) nextToken nextToken' savePtr')
                 = (Inr (r, s') :: error + _)"
        by (auto simp: Let_def elim!: ebind_InrE)
      obtain nextToken' savePtr' where st: "(nextToken', savePtr') = strtok_r savePtr ''/''"
        by (cases "strtok_r savePtr ''/''") auto
      have "handle_inode dir \<in> set [inode, handle_inode dir]" by simp
      from dir_close_counted [OF c2 this cl]
      have f3: "free_map s3 = free_map s2"
        and c3r: "handles_counted s3 (remove1 (handle_inode dir) [inode, handle_inode dir])"
        by simp_all
      have "remove1 (handle_inode dir) [inode, handle_inode dir] = [inode]"
        by (cases "handle_inode dir = inode") simp_all
      with c3r have c3: "handles_counted s3 [inode]" by simp
      from r3 st have r4: "parse_path_loop s3 (dir_open inode) nextToken nextToken' savePtr'
          = Inr (r, s')"
        by (auto split: prod.splits)
      from c3 have c3': "handles_counted s3 [handle_inode (dir_open inode)]" by simp
      from "1.IH" [OF refl tok ntok lk refl refl isd refl go refl cl st c3' r4] f1 f2 f3
      show ?thesis by simp
    qed
  qed
qed


lemma parse_path_counted:
  fixes s :: "'a filesys_state_scheme"
  assumes "handles_counted s []" and "parse_path s path_name file_name = Inr (dir, leaf, s')"
  shows "free_map s' = free_map s \<and> handles_counted s' [handle_inode dir]"
proof (cases "path_name = None \<or> file_name = None \<or> path_name = Some []")
  case True
  with assms(2) have "s' = s" "dir = None"
    by (auto simp: parse_path_def split: option.splits)
  with handles_counted_null [OF assms(1)] show ?thesis by (simp add: handle_inode_def)
next
  case False
  then obtain path old_name where p: "path_name = Some path" "file_name = Some old_name"
    "path \<noteq> []" by auto
  obtain token savePtr where st1: "strtok_r path ''/'' = (token, savePtr)"
    by (cases "strtok_r path ''/''")
  obtain nextToken savePtr' where st2: "strtok_r savePtr ''/'' = (nextToken, savePtr')"
    by (cases "strtok_r savePtr ''/''")
  from assms(2) p st1 st2 obtain d0 :: "dir option" and s1 :: "'a filesys_state_scheme" where
    op: "(if hd path = CHR ''/'' then dir_open_root s else dir_reopen s (cur_dir s))
          = Inr (d0, s1)"
    and r1: "ebind (parse_path_loop s1 d0 token nextToken savePtr') (\<lambda>(r, s2).
        case r of None \<Rightarrow> Inr (None, file_name, s2)
        | Some (dir', token') \<Rightarrow>
            (let token'' = (case token' of None \<Rightarrow> ''.'' | Some t \<Rightarrow> t)
             in case strlcpy token'' (NAME_MAX + 1) of (copied, size') \<Rightarrow>
                  if size' > NAME_MAX + 1 then Inr (None, Some copied, s2)
                  else Inr (dir', Some copied, s2))) = Inr (dir, leaf, s')"
    by (auto simp: parse_path_def elim!: ebind_InrE)
  from r1 obtain x where lp0: "parse_path_loop s1 d0 token nextToken savePtr' = Inr x"
    by (cases "parse_path_loop s1 d0 token nextToken savePtr'") simp_all
  obtain r s2 where x: "x = (r, s2)" by (cases x)
  note lp = lp0 [unfolded x]
  from r1 lp x have fin: "(case r of None \<Rightarrow> Inr (None, file_name, s2)
        | Some (dir', token') \<Rightarrow>
            (let token'' = (case token' of None \<Rightarrow> ''.'' | Some t \<Rightarrow> t)
             in case strlcpy token'' (NAME_MAX + 1) of (copied, size') \<Rightarrow>
                  if size' > NAME_MAX + 1 then Inr (None, Some copied, s2)
                  else Inr (dir', Some copied, s2))) = (Inr (dir, leaf, s') :: error + _)"
    by simp
  have q1: "free_map s1 = free_map s \<and> handles_counted s1 [handle_inode d0]"
  proof (cases "hd path = CHR ''/''")
    case True
    with op have "dir_open_root s = Inr (d0, s1)" by simp
    from dir_open_root_counted [OF assms(1) this] show ?thesis .
  next
    case False
    with op have "dir_reopen s (cur_dir s) = Inr (d0, s1)" by simp
    from dir_reopen_counted [OF assms(1) this] show ?thesis .
  qed
  note q2 = parse_path_loop_counted [OF conjunct2 [OF q1] lp]
  have "s' = s2 \<and> handles_counted s2 [handle_inode dir]"
  proof (cases r)
    case None
    with fin have "s' = s2" "dir = None" by simp_all
    moreover from q2 None have "handles_counted s2 []" by simp
    ultimately show ?thesis using handles_counted_null [of s2 "[]"]
      by (simp add: handle_inode_def)
  next
    case (Some y)
    obtain dir' token' where y: "y = (dir', token')" by (cases y)
    obtain copied size' where c: "strlcpy (case token' of None \<Rightarrow> ''.'' | Some t \<Rightarrow> t)
        (NAME_MAX + 1) = (copied, size')"
      by (cases "strlcpy (case token' of None \<Rightarrow> ''.'' | Some t \<Rightarrow> t) (NAME_MAX + 1)")
    from q2 Some y have h: "handles_counted s2 [handle_inode dir']" by simp
    show ?thesis
    proof (cases "size' > NAME_MAX + 1")
      case True
      with fin Some y c have "s' = s2" "dir = None" by (simp_all add: Let_def)
      with handles_counted_null [OF handles_counted_drop [OF h]] show ?thesis
        by (simp add: handle_inode_def)
    next
      case False
      with fin Some y c have "s' = s2" "dir = dir'" by (simp_all add: Let_def)
      with h show ?thesis by simp
    qed
  qed
  with q1 q2 show ?thesis by simp
qed


section \<open>Creating a file\<close>


lemma free_map_allocate_one:
  assumes "free_map_allocate s 1 = (Some sec, s1)"
  shows "\<exists>i. sec = of_nat i \<and> i < length (free_map s) \<and> \<not> free_map s ! i \<and>
    free_map s1 = (free_map s)[i := True] \<and> open_inodes s1 = open_inodes s"
proof -
  from assms obtain i where
    f: "find (\<lambda>i. list_all (\<lambda>j. \<not> free_map s ! j) [i..<i + 1])
          [0..<Suc (length (free_map s)) - 1] = Some i"
    and sec: "sec = of_nat i"
    and s1: "s1 = s\<lparr>free_map := fold (\<lambda>j fm. fm[j := True]) [i..<i + 1] (free_map s)\<rparr>"
    by (auto simp: free_map_allocate_def split: option.splits)
  from f have "i < length (free_map s)" and "\<not> free_map s ! i"
    by (auto simp: find_Some_iff)
  with sec s1 show ?thesis by auto
qed


lemma free_map_allocate_none:
  "free_map_allocate s n = (None, s1) \<Longrightarrow> s1 = s"
  by (auto simp: free_map_allocate_def split: option.splits)


lemma free_map_allocate_cong:
  "free_map s2 = free_map s \<Longrightarrow> fst (free_map_allocate s2 n) = fst (free_map_allocate s n)"
  by (simp add: free_map_allocate_def split: option.splits)


lemma free_map_release_one:
  "free_map (free_map_release s sec (Suc 0)) = (free_map s)[unat sec := False]"
  by (simp add: free_map_release_def)


lemma unat_of_nat_sector:
  "i < 2 ^ 32 \<Longrightarrow> unat (of_nat i :: block_sector_t) = i"
  by (simp add: unat_of_nat)


lemma dir_add_quiet:
  assumes "dir_add s dir nm sec = Inr (ok, s')"
  shows "free_map s' = free_map s \<and> open_inodes s' = open_inodes s"
proof -
  from assms obtain x where "dir_entries s dir = Inr x"
    and "(case x of (sec', entries) \<Rightarrow>
      if length nm > NAME_MAX then Inr (False, s)
      else if find (\<lambda>e. entry_in_use e \<and> entry_name e = nm) entries \<noteq> None
      then Inr (False, s)
      else
        Inr (True,
             s\<lparr>dir_data := (dir_data s)
                  (sec' := free_slot entries
                     \<lparr>entry_name = nm, entry_inode_sector = sec,
                      entry_in_use = True\<rparr>)\<rparr>)) = (Inr (ok, s') :: error + _)"
    by (cases "dir_entries s dir") (simp_all add: dir_add_def)
  then show ?thesis by (cases x) (auto split: if_splits)
qed


text \<open>
  The creation path releases no sector that was in use: what it releases it has
  allocated itself.
\<close>

lemma used_kept_refl [simp]: "used_kept fm fm"
  by (simp add: used_kept_def list_all2_refl)

lemma used_kept_trans: "used_kept a b \<Longrightarrow> used_kept b c \<Longrightarrow> used_kept a c"
  by (auto simp: used_kept_def list_all2_conv_all_nth)

lemma used_kept_length: "used_kept fm fm' \<Longrightarrow> length fm' = length fm"
  by (simp add: used_kept_def list_all2_lengthD)

lemma used_kept_nth:
  "used_kept fm fm' \<Longrightarrow> j < length fm \<Longrightarrow> fm ! j \<Longrightarrow> fm' ! j"
  by (auto simp: used_kept_def list_all2_conv_all_nth)

lemma used_kept_set: "used_kept fm fm' \<Longrightarrow> used_kept fm (fm'[i := True])"
  by (cases "i < length fm'") (auto simp: used_kept_def list_all2_conv_all_nth nth_list_update)

lemma used_kept_clear: "used_kept fm fm' \<Longrightarrow> \<not> fm ! i \<Longrightarrow> used_kept fm (fm'[i := False])"
  by (cases "i < length fm'") (auto simp: used_kept_def list_all2_conv_all_nth nth_list_update)

lemma fold_set_kept:
  "used_kept fm fm' \<Longrightarrow> used_kept fm (fold (\<lambda>j fm. fm[j := True]) js fm')"
  by (induction js arbitrary: fm') (simp_all add: used_kept_set)

lemma free_map_allocate_kept:
  "free_map_allocate s n = (r, s1) \<Longrightarrow> used_kept (free_map s) (free_map s1)"
  by (auto simp: free_map_allocate_def fold_set_kept split: option.splits)

lemma malloc_free_map: "malloc s = (ok, s1) \<Longrightarrow> free_map s1 = free_map s"
  by (auto simp: malloc_def split: list.splits)

lemma bc_write_free_map:
  fixes s :: "'a fs_state_scheme"
  assumes "bc_write s sec buffer buffer_ofs n sector_ofs = Inr (ok, s')"
  shows "free_map s' = free_map s"
proof -
  from bc_write_result [OF assms] have m: "bc_state.more s' = bc_state.more s" by simp
  from fs_more_eq [OF m] show ?thesis by simp
qed

lemma bc_read_free_map:
  fixes s :: "'a fs_state_scheme"
  assumes "bc_read s sec buffer buffer_ofs n sector_ofs = Inr (ok, buffer', s')"
  shows "free_map s' = free_map s"
proof -
  from bc_read_result [OF assms] have m: "bc_state.more s' = bc_state.more s" by simp
  from fs_more_eq [OF m] show ?thesis by simp
qed

lemma byte_to_sector_free_map:
  fixes s :: "'a fs_state_scheme"
  assumes "byte_to_sector s d pos = Inr (sec, s')"
  shows "free_map s' = free_map s"
proof (cases "pos < length_field d")
  case False
  with assms show ?thesis by (simp add: byte_to_sector_def)
next
  case True
  show ?thesis
  proof (cases "directness (locate_byte pos fresh_sector_location)")
    case NORMAL_DIRECT
    with assms True show ?thesis
      by (auto simp: byte_to_sector_def Let_def elim!: ebind_InrE)
  next
    case INDIRECT
    with assms True show ?thesis
      by (auto simp: byte_to_sector_def Let_def elim!: ebind_InrE
          dest!: malloc_free_map bc_read_free_map split: prod.splits bool.splits if_splits)
  next
    case DOUBLE_INDIRECT
    with assms True show ?thesis
      by (auto simp: byte_to_sector_def Let_def elim!: ebind_InrE
          dest!: malloc_free_map bc_read_free_map split: prod.splits bool.splits if_splits)
  next
    case OUT_LIMIT
    with assms True show ?thesis by (simp add: byte_to_sector_def Let_def)
  qed
qed

lemma register_sector_kept:
  fixes s :: "'a fs_state_scheme"
  assumes "register_sector s d new_sector loc = Inr (ok, d', s')"
  shows "used_kept (free_map s) (free_map s')"
proof (cases "directness loc")
  case NORMAL_DIRECT
  with assms show ?thesis
    by (auto simp: register_sector_def elim!: ebind_InrE)
next
  case INDIRECT
  with assms show ?thesis
    by (auto simp: register_sector_def elim!: ebind_InrE
        dest!: malloc_free_map free_map_allocate_kept bc_write_free_map
        split: prod.splits bool.splits option.splits if_splits)
next
  case DOUBLE_INDIRECT
  with assms show ?thesis
    by (auto simp: register_sector_def elim!: ebind_InrE
        dest!: malloc_free_map free_map_allocate_kept bc_write_free_map bc_read_free_map
        split: prod.splits bool.splits option.splits if_splits)
      (blast intro: used_kept_trans)+
next
  case OUT_LIMIT
  with assms show ?thesis by (simp add: register_sector_def)
qed

lemma update_file_length_loop_kept:
  "update_file_length_loop s d zeroes offset size' = Inr (ok, d', s') \<Longrightarrow>
   length (free_map s) \<le> 2 ^ 32 \<Longrightarrow>
   used_kept (free_map s) (free_map s')"
proof (induction s d zeroes offset size' arbitrary: ok d' s' rule: update_file_length_loop.induct)
  case (1 s inode_disk zeroes offset size')
  note len = "1.prems"(2)
  note run = "1.prems"(1) [unfolded update_file_length_loop.simps [of s inode_disk zeroes offset size']
      Let_def]
  show ?case
  proof (cases "size' > 0 \<and>
      \<not> (if size' < BLOCK_SECTOR_SIZE - offset smod BLOCK_SECTOR_SIZE then size'
         else BLOCK_SECTOR_SIZE - offset smod BLOCK_SECTOR_SIZE) \<le> 0")
    case False
    with run show ?thesis by (auto split: if_splits)
  next
    case go: True
    show ?thesis
    proof (cases "offset smod BLOCK_SECTOR_SIZE > 0")
      case True
      with run go obtain x where
        b: "byte_to_sector s inode_disk offset = Inr x"
        and r1: "(case x of (sector_idx, s1) \<Rightarrow>
           if sector_idx = 0 then Inl Panic
           else ebind (bc_write s1 sector_idx zeroes 0
                  (BLOCK_SECTOR_SIZE - offset smod BLOCK_SECTOR_SIZE)
                  (offset smod BLOCK_SECTOR_SIZE))
                (\<lambda>(ok, s2). update_file_length_loop s2 inode_disk zeroes
                   (offset + (if size' < BLOCK_SECTOR_SIZE - offset smod BLOCK_SECTOR_SIZE then size'
                      else BLOCK_SECTOR_SIZE - offset smod BLOCK_SECTOR_SIZE))
                   (size' - (if size' < BLOCK_SECTOR_SIZE - offset smod BLOCK_SECTOR_SIZE then size'
                      else BLOCK_SECTOR_SIZE - offset smod BLOCK_SECTOR_SIZE)))) = Inr (ok, d', s')"
        by (auto elim!: ebind_InrE)
      obtain sector_idx s1 where x: "x = (sector_idx, s1)" by (cases x)
      from r1 x have nz: "sector_idx \<noteq> 0" by (auto split: if_splits)
      from r1 x nz obtain y where
        w: "bc_write s1 sector_idx zeroes 0 (BLOCK_SECTOR_SIZE - offset smod BLOCK_SECTOR_SIZE)
              (offset smod BLOCK_SECTOR_SIZE) = Inr y"
        and r2: "(case y of (ok, s2) \<Rightarrow> update_file_length_loop s2 inode_disk zeroes
                   (offset + (if size' < BLOCK_SECTOR_SIZE - offset smod BLOCK_SECTOR_SIZE then size'
                      else BLOCK_SECTOR_SIZE - offset smod BLOCK_SECTOR_SIZE))
                   (size' - (if size' < BLOCK_SECTOR_SIZE - offset smod BLOCK_SECTOR_SIZE then size'
                      else BLOCK_SECTOR_SIZE - offset smod BLOCK_SECTOR_SIZE))) = Inr (ok, d', s')"
        by (auto elim!: ebind_InrE)
      obtain ok1 s2 where y: "y = (ok1, s2)" by (cases y)
      have e1: "free_map s1 = free_map s"
        using b [unfolded x] by (rule byte_to_sector_free_map)
      have e2: "free_map s2 = free_map s1"
        using w [unfolded y] by (rule bc_write_free_map)
      have "used_kept (free_map s2) (free_map s')"
        using go True b x nz w y r2 len e1 e2
        by (intro "1.IH"(1) [OF _ refl refl refl _ _ b x [symmetric] nz w y [symmetric]]) simp_all
      with e1 e2 show ?thesis by simp
    next
      case False
      obtain r s1 where a0: "free_map_allocate s 1 = (r, s1)"
        by (cases "free_map_allocate s 1")
      show ?thesis
      proof (cases r)
        case None
        with run go False a0 free_map_allocate_kept [OF a0] show ?thesis by auto
      next
        case (Some sector_idx)
        with a0 have a: "free_map_allocate s 1 = (Some sector_idx, s1)" by simp
      from run go False a obtain x where
        reg: "register_sector s1 inode_disk sector_idx
                (locate_byte offset fresh_sector_location) = Inr x"
        and r1: "(case x of (ok1, d1, s2) \<Rightarrow>
           if \<not> ok1 then Inr (False, d1, free_map_release s2 sector_idx 1)
           else ebind (bc_write s2 sector_idx zeroes 0 BLOCK_SECTOR_SIZE 0)
                (\<lambda>(ok', s3). update_file_length_loop s3 d1 zeroes
                   (offset + (if size' < BLOCK_SECTOR_SIZE - offset smod BLOCK_SECTOR_SIZE then size'
                      else BLOCK_SECTOR_SIZE - offset smod BLOCK_SECTOR_SIZE))
                   (size' - (if size' < BLOCK_SECTOR_SIZE - offset smod BLOCK_SECTOR_SIZE then size'
                      else BLOCK_SECTOR_SIZE - offset smod BLOCK_SECTOR_SIZE)))) = Inr (ok, d', s')"
        by (auto elim!: ebind_InrE)
      obtain ok1 d1 s2 where x: "x = (ok1, d1, s2)" by (cases x)
      note f1 = register_sector_kept [OF reg [unfolded x]]
      note f0 = free_map_allocate_kept [OF a]
      from free_map_allocate_one [OF a] obtain i where
        sec: "sector_idx = of_nat i" and i: "i < length (free_map s)" and
        free: "\<not> free_map s ! i" by auto
      from i len have u: "unat sector_idx = i" by (simp add: sec unat_of_nat_sector)
      from used_kept_trans [OF f0 f1] have k2: "used_kept (free_map s) (free_map s2)" .
      show ?thesis
      proof (cases ok1)
        case ok1f: False
        with r1 x have "s' = free_map_release s2 sector_idx 1" by auto
        with used_kept_clear [OF k2, of i] free u show ?thesis
          by (simp add: free_map_release_one)
      next
        case ok1t: True
        with r1 x obtain y where
          w: "bc_write s2 sector_idx zeroes 0 BLOCK_SECTOR_SIZE 0 = Inr y"
          and r2: "(case y of (ok', s3) \<Rightarrow> update_file_length_loop s3 d1 zeroes
                   (offset + (if size' < BLOCK_SECTOR_SIZE - offset smod BLOCK_SECTOR_SIZE then size'
                      else BLOCK_SECTOR_SIZE - offset smod BLOCK_SECTOR_SIZE))
                   (size' - (if size' < BLOCK_SECTOR_SIZE - offset smod BLOCK_SECTOR_SIZE then size'
                      else BLOCK_SECTOR_SIZE - offset smod BLOCK_SECTOR_SIZE))) = Inr (ok, d', s')"
          by (auto elim!: ebind_InrE)
        obtain ok2 s3 where y: "y = (ok2, s3)" by (cases y)
        have e3: "free_map s3 = free_map s2"
          using w [unfolded y] by (rule bc_write_free_map)
        from k2 e3 len have len3: "length (free_map s3) \<le> 2 ^ 32"
          by (simp add: used_kept_length)
        have "used_kept (free_map s3) (free_map s')"
          using go False ok1t r2 y len3
          by (intro "1.IH"(2) [OF _ refl refl refl _ _ a [symmetric] refl reg x [symmetric] _ _ w y [symmetric]])
            simp_all
        with k2 e3 show ?thesis by (auto intro: used_kept_trans)
      qed
      qed
    qed
  qed
qed



lemma inode_update_file_length_kept:
  assumes "inode_update_file_length s d start_pos end_pos = Inr (ok, d', s')"
    and "length (free_map s) \<le> 2 ^ 32"
  shows "used_kept (free_map s) (free_map s')"
proof (cases "malloc s")
  case (Pair okm s1)
  note k = malloc_free_map [OF Pair]
  show ?thesis
  proof (cases okm)
    case True
    with assms Pair have "update_file_length_loop s1 d fresh_block start_pos
        (end_pos - start_pos + 1) = Inr (ok, d', s')"
      by (auto simp: inode_update_file_length_def split: if_splits)
    from update_file_length_loop_kept [OF this] k assms(2) show ?thesis by simp
  next
    case False
    with assms Pair k show ?thesis
      by (auto simp: inode_update_file_length_def split: if_splits)
  qed
qed

lemma inode_create_kept:
  fixes s :: "'a fs_state_scheme"
  assumes "inode_create s sec len isdir = Inr (ok, s')"
    and "length (free_map s) \<le> 2 ^ 32"
  shows "used_kept (free_map s) (free_map s')"
proof (cases "malloc s")
  case (Pair okm s1)
  note k = malloc_free_map [OF Pair]
  show ?thesis
  proof (cases okm)
    case False
    with assms Pair k show ?thesis
      by (auto simp: inode_create_def split: if_splits)
  next
    case True
    define disk_inode where "disk_inode =
               \<lparr>direct_map_table = replicate (nat DIRECT_BLOCK_ENTRIES) 0,
                indirect_block_sec = 0, double_indirect_block_sec = 0,
                length_field = len, magic = INODE_MAGIC, is_dir = isdir\<rparr>"
    from assms(1) Pair True obtain grown d1 s2 where
      g: "(if len > 0 then inode_update_file_length s1 disk_inode 0 (len - 1)
           else Inr (True, disk_inode, s1)) = Inr (grown, d1, s2)"
      and r: "(if \<not> grown then Inr (False, s2)
               else ebind (bc_write s2 sec (inode_disk_bytes d1) 0 BLOCK_SECTOR_SIZE 0)
                      (\<lambda>(ok, s3). Inr (True, s3))) = (Inr (ok, s') :: error + _)"
      by (auto simp: inode_create_def Let_def disk_inode_def elim!: ebind_InrE split: if_splits)
    have k2: "used_kept (free_map s) (free_map s2)"
    proof (cases "len > 0")
      case True
      with g have "inode_update_file_length s1 disk_inode 0 (len - 1) = Inr (grown, d1, s2)"
        by simp
      from inode_update_file_length_kept [OF this] k assms(2) show ?thesis by simp
    next
      case False
      with g k show ?thesis by simp
    qed
    have "free_map s' = free_map s2"
    proof (cases grown)
      case False
      with r show ?thesis by simp
    next
      case True
      with r obtain ok' where "bc_write s2 sec (inode_disk_bytes d1) 0 BLOCK_SECTOR_SIZE 0
          = Inr (ok', s')"
        by (auto elim!: ebind_InrE)
      then show ?thesis by (rule bc_write_free_map)
    qed
    with k2 show ?thesis by simp
  qed
qed

text \<open>
  Claim C8, as the code has it. When \<^verbatim>\<open>filesys_create\<close> returns false, the sector it
  took from the free map for the inode (the one \<^verbatim>\<open>free_map_allocate\<close> hands out in the
  state of the call) is free afterwards, and no sector that was in use before the
  call has been released: the free map differs from the one before the call at most
  in sectors that \<^verbatim>\<open>inode_create\<close> took for the data, which stay allocated. For an
  initial size of 0 the free map is as it was before the call. In the state of the
  call every open inode has an open
  count of at least 1, as \<^verbatim>\<open>inode_open\<close>, \<^verbatim>\<open>inode_reopen\<close> and \<^verbatim>\<open>inode_close\<close> keep it;
  inodes marked removed may be open. Sector 0 is in use (it holds the inode of the
  free-map file, and \<^verbatim>\<open>filesys_create\<close> takes an \<^verbatim>\<open>inode_sector\<close> of 0 for none), and
  sector numbers fit 32 bits.
\<close>

theorem filesys_create_failure_releases_inode_sector:
  fixes s :: "'a filesys_state_scheme"
  assumes run: "filesys_create s name initial_size = Inr (False, s')"
    and inv: "\<forall>i \<in> set (open_inodes s). 1 \<le> open_cnt i"
    and zero: "free_map s \<noteq> []" "free_map s ! 0"
    and len: "length (free_map s) \<le> 2 ^ 32"
  shows "(\<forall>sec. fst (free_map_allocate s 1) = Some sec \<longrightarrow> \<not> free_map s' ! unat sec) \<and>
    length (free_map s') = length (free_map s) \<and>
    (\<forall>j < length (free_map s). free_map s ! j \<longrightarrow> free_map s' ! j) \<and>
    (initial_size = 0 \<longrightarrow> free_map s' = free_map s)"
proof -
  have first_free: "\<not> free_map s ! unat sec" if "fst (free_map_allocate s 1) = Some sec" for sec
  proof -
    obtain r0 s0 where e: "free_map_allocate s 1 = (r0, s0)"
      by (cases "free_map_allocate s 1")
    with that have "free_map_allocate s 1 = (Some sec, s0)" by simp
    from free_map_allocate_one [OF this] obtain i where
      "sec = of_nat i" "i < length (free_map s)" "\<not> free_map s ! i" by auto
    with len show ?thesis by (simp add: unat_of_nat_sector)
  qed
  have base: ?thesis if "free_map s' = free_map s"
    using that first_free by simp
  obtain okm s1 where m: "malloc s = (okm, s1)" by (cases "malloc s")
  note mk = malloc_frame [OF m]
  show ?thesis
  proof (cases okm)
    case False
    with run m have "s' = s1" by (simp add: filesys_create_def)
    with mk show ?thesis by (intro base) simp
  next
    case okm: True
    obtain cp_name n where cp: "strlcpy name (length name + 1) = (cp_name, n)"
      by (cases "strlcpy name (length name + 1)")
    from run m okm cp obtain x where pp0: "parse_path s1 (Some cp_name) (Some []) = Inr x"
      by (cases "parse_path s1 (Some cp_name) (Some [])") (simp_all add: filesys_create_def)
    obtain dir file_name s2 where x: "x = (dir, file_name, s2)" by (cases x)
    note pp = pp0 [unfolded x]
    have inv1: "handles_counted s1 []"
      using inv mk by (simp add: handles_counted_def list_all_iff)
    from parse_path_counted [OF inv1 pp] mk
    have fm2: "free_map s2 = free_map s" and inv2: "handles_counted s2 [handle_inode dir]"
      by simp_all
    from run m okm cp pp have r1:
      "(if dir = None then Inr (False, s2)
        else
          ebind (dir_get_inode dir) (\<lambda>dinode.
          ebind (inode_is_removed s2 dinode) (\<lambda>rem.
            if rem then Inr (False, s2)
            else
              (case file_name of
                 None \<Rightarrow> Inl BadPointer
               | Some nm \<Rightarrow>
                   (case free_map_allocate s2 1 of
                      (r, s3) \<Rightarrow>
                        (let inode_sector = (case r of None \<Rightarrow> 0 | Some sec \<Rightarrow> sec)
                         in ebind (if r \<noteq> None
                                   then inode_create s3 inode_sector initial_size 0
                                   else Inr (False, s3)) (\<lambda>(created, s4).
                            ebind (if created then dir_add s4 dir nm inode_sector
                                   else Inr (False, s4)) (\<lambda>(success, s5).
                            ebind (dir_close
                                     (if \<not> success \<and> inode_sector \<noteq> 0
                                      then free_map_release s5 inode_sector 1 else s5)
                                     dir) (\<lambda>s6.
                              Inr (success, s6))))))))))
       = (Inr (False, s') :: error + _)"
      by (simp add: filesys_create_def)
    show ?thesis
    proof (cases "dir = None")
      case True
      with r1 fm2 show ?thesis by (intro base) simp
    next
      case dir: False
      from r1 dir obtain dinode where "dir_get_inode dir = Inr dinode"
        by (cases "dir_get_inode dir") simp_all
      with r1 dir obtain rem where "inode_is_removed s2 dinode = Inr rem"
        by (cases "inode_is_removed s2 dinode") simp_all
      note r2 = r1 [unfolded \<open>dir_get_inode dir = Inr dinode\<close> \<open>inode_is_removed s2 dinode = Inr rem\<close>
          ebind_Inr]
      show ?thesis
      proof (cases rem)
        case True
        with r2 dir fm2 show ?thesis by (intro base) simp
      next
        case rem: False
        from r2 dir rem obtain nm where nm: "file_name = Some nm"
          by (cases file_name) simp_all
        obtain r s3 where a: "free_map_allocate s2 1 = (r, s3)"
          by (cases "free_map_allocate s2 1")
        define inode_sector :: block_sector_t
          where "inode_sector = (case r of None \<Rightarrow> 0 | Some sec \<Rightarrow> sec)"
        from r2 dir rem nm a have r3:
          "ebind (if r \<noteq> None then inode_create s3 inode_sector initial_size 0
                  else Inr (False, s3)) (\<lambda>(created, s4).
             ebind (if created then dir_add s4 dir nm inode_sector
                    else Inr (False, s4)) (\<lambda>(success, s5).
             ebind (dir_close
                      (if \<not> success \<and> inode_sector \<noteq> 0
                       then free_map_release s5 inode_sector 1 else s5)
                      dir) (\<lambda>s6.
               Inr (success, s6))))
           = (Inr (False, s') :: error + _)"
          unfolding inode_sector_def by (simp add: Let_def)
        from r3 obtain y where c0: "(if r \<noteq> None then inode_create s3 inode_sector initial_size 0
                  else Inr (False, s3)) = Inr y"
          by (cases "if r \<noteq> None then inode_create s3 inode_sector initial_size 0
                  else Inr (False, s3)") simp_all
        obtain created s4 where y: "y = (created, s4)" by (cases y)
        note c = c0 [unfolded y]
        from r3 c have r4:
          "ebind (if created then dir_add s4 dir nm inode_sector
                    else Inr (False, s4)) (\<lambda>(success, s5).
             ebind (dir_close
                      (if \<not> success \<and> inode_sector \<noteq> 0
                       then free_map_release s5 inode_sector 1 else s5)
                      dir) (\<lambda>s6.
               Inr (success, s6)))
           = (Inr (False, s') :: error + _)"
          by simp
        from r4 obtain z where d0: "(if created then dir_add s4 dir nm inode_sector
                    else Inr (False, s4)) = Inr z"
          by (cases "if created then dir_add s4 dir nm inode_sector
                    else Inr (False, s4)") simp_all
        obtain success s5 where z: "z = (success, s5)" by (cases z)
        note d = d0 [unfolded z]
        define s5' where "s5' = (if \<not> success \<and> inode_sector \<noteq> 0
                       then free_map_release s5 inode_sector 1 else s5)"
        from r4 d have r5:
          "ebind (dir_close s5' dir) (\<lambda>s6. Inr (success, s6)) = (Inr (False, s') :: error + _)"
          by (simp add: s5'_def)
        then have cl: "dir_close s5' dir = Inr s'" and success: "\<not> success"
          by (cases "dir_close s5' dir"; simp)+
        have k3: "open_inodes s3 = open_inodes s2" "length (free_map s3) = length (free_map s2)"
          using free_map_allocate_keeps [OF a] by (simp_all add: fs_shape_def)
        have k4: "open_inodes s4 = open_inodes s3" "length (free_map s4) = length (free_map s3)"
          and e4: "initial_size = 0 \<Longrightarrow> free_map s4 = free_map s3"
        proof -
          show "open_inodes s4 = open_inodes s3" "length (free_map s4) = length (free_map s3)"
            using c inode_create_keeps [of s3 inode_sector initial_size 0 created s4]
            by (auto simp: fs_shape_def split: if_splits)
          show "free_map s4 = free_map s3" if "initial_size = 0"
            using c that inode_create_empty_keeps_free_map [of s3 inode_sector 0 created s4]
            by (auto split: if_splits)
        qed
        have k5: "open_inodes s5 = open_inodes s4" "free_map s5 = free_map s4"
          using d dir_add_quiet [of s4 dir nm inode_sector success s5]
          by (auto split: if_splits)
        have k5': "open_inodes s5' = open_inodes s5"
          by (simp add: s5'_def free_map_release_def)
        have "handles_counted s5' [handle_inode dir]"
          using inv2 k3 k4 k5 k5' by (simp add: handles_counted_def)
        from dir_close_counted [OF this _ cl] have fm': "free_map s' = free_map s5'" by simp
        show ?thesis
        proof (cases r)
          case None
          with a have "s3 = s2" by (simp add: free_map_allocate_none)
          moreover from None c have "s4 = s3" by simp
          moreover from None c d have "s5 = s4" by auto
          moreover from None have "s5' = s5" by (simp add: s5'_def inode_sector_def)
          ultimately show ?thesis using fm' fm2 by (intro base) simp
        next
          case (Some sec)
          with a have a': "free_map_allocate s2 1 = (Some sec, s3)" by simp
          from free_map_allocate_one [OF a'] obtain i where
            sec: "sec = of_nat i" and i: "i < length (free_map s2)" and
            free: "\<not> free_map s2 ! i" and fm3: "free_map s3 = (free_map s2)[i := True]"
            by auto
          from i fm2 len have u: "unat sec = i" by (simp add: sec unat_of_nat_sector)
          have nz: "sec \<noteq> 0"
          proof
            assume "sec = 0"
            with u have "i = 0" by simp
            with free fm2 zero show False by simp
          qed
          from Some have isec: "inode_sector = sec" by (simp add: inode_sector_def)
          from success nz isec have "s5' = free_map_release s5 sec 1" by (simp add: s5'_def)
          with fm' u have fm'': "free_map s' = (free_map s5)[i := False]"
            by (simp add: free_map_release_one)
          have li: "i < length (free_map s5)" using i k3 k4 k5 by simp
          have a1: "\<not> free_map s' ! unat sec'" if "fst (free_map_allocate s 1) = Some sec'" for sec'
          proof -
            from free_map_allocate_cong [OF fm2, of 1] a' that have "sec' = sec" by simp
            with fm'' li u show ?thesis by simp
          qed
          have a2: "free_map s' = free_map s" if "initial_size = 0"
          proof -
            from e4 [OF that] k5 fm3 fm'' have "free_map s' = (free_map s2)[i := False]" by simp
            also from free have "\<dots> = free_map s2"
              by (metis list_update_id)
            finally show ?thesis using fm2 by simp
          qed
          have len3: "length (free_map s3) \<le> 2 ^ 32" using k3 fm2 len by simp
          from c Some have "inode_create s3 inode_sector initial_size 0 = Inr (created, s4)"
            by simp
          from inode_create_kept [OF this len3]
          have k34: "used_kept (free_map s3) (free_map s4)" .
          from free_map_allocate_kept [OF a'] fm2
          have "used_kept (free_map s) (free_map s3)" by simp
          from used_kept_trans [OF this k34] k5
          have "used_kept (free_map s) (free_map s5)" by simp
          from used_kept_clear [OF this, of i] free fm2 fm''
          have kept: "used_kept (free_map s) (free_map s')" by simp
          from a1 a2 used_kept_length [OF kept] used_kept_nth [OF kept] show ?thesis by blast
        qed
      qed
    qed
  qed
qed


lemmas create_defs =
  filesys_create_def inode_is_removed_def inode_create_def dir_add_def
  free_map_allocate_def free_map_release_def
  inode_update_file_length_def update_file_length_loop.simps register_sector_def
  locate_byte_def fresh_sector_location_def array_get_def array_set_def
  bc_write_def bc_read_def bc_lookup_def empty_head_def bc_select_victim_def clock_sweep.simps
  bc_flush_entry_def block_write_def block_read_def memcpy_def fresh_block_def
  BLOCK_SECTOR_SIZE_def DIRECT_BLOCK_ENTRIES_def INDIRECT_BLOCK_ENTRIES_def
  signed_modulo_int_def signed_divide_int_def length_inode_disk_bytes_512

text \<open>
  Claim C8 says that a failing \<^verbatim>\<open>filesys_create\<close> leaves the free map as it was. In
  \<open>dir_fs\<close> the root directory has an entry \<open>a\<close>, so creating \<open>/a\<close> with an initial size
  of 512 bytes fails in \<^verbatim>\<open>dir_add\<close>. By then \<^verbatim>\<open>free_map_allocate\<close> has handed out sector 5
  for the inode and \<^verbatim>\<open>inode_create\<close> sector 6 for the data; \<^verbatim>\<open>filesys_create\<close> releases
  sector 5 only, and sector 6 stays allocated.
\<close>

theorem filesys_create_failure_keeps_data_sector:
  "\<exists>s'. filesys_create (dir_fs []) ''/a'' 512 = Inr (False, s') \<and>
     free_map (dir_fs []) = [True, True, True, True, True, False, False, False] \<and>
     free_map s' = [True, True, True, True, True, False, True, False]"
  by (simp add: path_defs create_defs)

text \<open>
  The state \<open>dir_fs\<close> with the file \<open>f\<close> open once and marked removed. Creating \<open>/a\<close>
  with an initial size of 0 fails there, the name being taken.
\<close>

lemma dir_fs_create_fails:
  "\<exists>s'. filesys_create
       ((dir_fs [])\<lparr>open_inodes := open_inodes (dir_fs []) @
          [\<lparr>sector = 3, open_cnt = 1, removed = True, deny_write_cnt = 0,
            extend_lock = False\<rparr>]\<rparr>) ''/a'' 0 = Inr (False, s')"
  by (simp add: path_defs create_defs)

theorem filesys_create_failure_releases_inode_sector_witness:
  "\<exists>s'. filesys_create
       ((dir_fs [])\<lparr>open_inodes := open_inodes (dir_fs []) @
          [\<lparr>sector = 3, open_cnt = 1, removed = True, deny_write_cnt = 0,
            extend_lock = False\<rparr>]\<rparr>) ''/a'' 0 = Inr (False, s') \<and>
     fst (free_map_allocate (dir_fs []) 1) = Some 5 \<and>
     \<not> free_map s' ! 5 \<and> free_map s' = free_map (dir_fs [])"
proof -
  let ?s = "(dir_fs [])\<lparr>open_inodes := open_inodes (dir_fs []) @
          [\<lparr>sector = 3, open_cnt = 1, removed = True, deny_write_cnt = 0,
            extend_lock = False\<rparr>]\<rparr>"
  from dir_fs_create_fails obtain s' where
    run: "filesys_create ?s ''/a'' 0 = Inr (False, s')" ..
  have a: "fst (free_map_allocate ?s 1) = Some 5"
    by (simp add: free_map_allocate_def dir_fs_def)
  have b: "fst (free_map_allocate (dir_fs []) 1) = Some 5"
    by (simp add: free_map_allocate_def dir_fs_def)
  from filesys_create_failure_releases_inode_sector [OF run] a
  have "\<not> free_map s' ! 5 \<and> free_map s' = free_map (dir_fs [])"
    by (simp add: dir_fs_def)
  with run b show ?thesis by blast
qed

end
